theory Spec2Isabelle
  imports
    Complex_Main
    "HOL-Library.Sublist"
    "HOL-Library.List_Lexorder"
    "HOL-Library.Char_ord"
    "HOL-Library.Product_Lexorder"
    "HOL-Library.Multiset"
begin

section \<open>Data model (app.py, lines 46-59)\<close>

text \<open>
  A \<open>datetime.date\<close> is a triple of year, month and day. Python only builds dates with
  \<open>1 \<le> year \<le> 9999\<close>, \<open>1 \<le> month \<le> 12\<close> and \<open>1 \<le> day \<le> 31\<close>; \<open>valid_date\<close> records that
  range. Dates compare by year, then month, then day.
\<close>

record pydate =
  year :: nat
  month :: nat
  day :: nat

definition valid_date :: "pydate \<Rightarrow> bool" where
  "valid_date d \<longleftrightarrow>
     1 \<le> year d \<and> year d \<le> 9999 \<and> 1 \<le> month d \<and> month d \<le> 12 \<and> 1 \<le> day d \<and> day d \<le> 31"

definition date_key :: "pydate \<Rightarrow> nat \<times> nat \<times> nat" where
  "date_key d = (year d, month d, day d)"

text \<open>
  \<open>Category\<close> and \<open>Transaction\<close> rows. Amounts are \<open>db.Float\<close>; they are modelled as
  real numbers, so rounding is outside the model. \<open>description\<close> and \<open>category_id\<close> are
  nullable columns. \<open>amount\<close>, \<open>type\<close> and \<open>user_id\<close> are declared \<open>nullable=False\<close>, and
  every route that writes a row stores a date, so these fields are not optional.
\<close>

record category =
  c_id :: int
  c_name :: string
  c_user_id :: int

record transaction =
  t_id :: int
  t_amount :: real
  t_type :: string
  t_description :: "string option"
  t_date :: pydate
  t_category_id :: "int option"
  t_user_id :: int

text \<open>
  The database: each table is the list of its rows in rowid order. The signed-in user
  (\<open>current_user.id\<close>) is passed to every route as the argument \<open>uid\<close>.
\<close>

record db =
  tx_table :: "transaction list"
  cat_table :: "category list"

text \<open>
  SQLite gives a new row of an \<open>INTEGER PRIMARY KEY\<close> table the largest rowid in use plus
  one, and 1 in an empty table.
\<close>

definition next_id :: "int list \<Rightarrow> int" where
  "next_id ids = (case ids of [] \<Rightarrow> 1 | i # rest \<Rightarrow> fold max rest i + 1)"

text \<open>Primary keys are unique in each table.\<close>

definition db_keys_ok :: "db \<Rightarrow> bool" where
  "db_keys_ok d \<longleftrightarrow> distinct (map t_id (tx_table d)) \<and> distinct (map c_id (cat_table d))"

text \<open>
  The relationship \<open>Transaction.category\<close>: the row of \<open>category\<close> whose primary key is the
  transaction's \<open>category_id\<close>, or \<open>None\<close> when the column is NULL or no such row exists.
\<close>

definition tx_category :: "db \<Rightarrow> transaction \<Rightarrow> category option" where
  "tx_category d t =
     (case t_category_id t of
        None \<Rightarrow> None
      | Some k \<Rightarrow> find (\<lambda>c. c_id c = k) (cat_table d))"

section \<open>Responses, requests and forms (app.py, lines 76-86)\<close>

text \<open>
  \<open>first_or_404\<close> and \<open>paginate\<close> abort the request with HTTP 404. A view otherwise
  redirects to an endpoint or renders a template; a rendered form carries the names of
  the fields that failed validation (empty on a GET).
\<close>

datatype error = NotFound

datatype response = Redirect string | Render string "string list"

datatype 'f request = GET | POST 'f

text \<open>
  A submitted \<open>TransactionForm\<close>, after WTForms has processed the posted values: each
  field holds its coerced \<open>data\<close>, \<open>None\<close> where the value was missing or could not be
  coerced (\<open>FloatField\<close>, \<open>SelectField(coerce=int)\<close>, \<open>DateField\<close>). \<open>tf_csrf_ok\<close> tells
  whether the CSRF token that \<open>FlaskForm\<close> adds is valid.
\<close>

record transaction_form =
  tf_csrf_ok :: bool
  tf_amount :: "real option"
  tf_type :: "string option"
  tf_category :: "int option"
  tf_date :: "pydate option"
  tf_description :: "string option"

record category_form =
  cf_csrf_ok :: bool
  cf_name :: "string option"

text \<open>The values a valid \<open>TransactionForm\<close> hands to the view.\<close>

record transaction_data =
  td_amount :: real
  td_type :: string
  td_category :: int
  td_date :: pydate
  td_description :: "string option"

text \<open>
  Field validation. \<open>amount\<close>: \<open>FloatField\<close> with \<open>DataRequired\<close>, which rejects a value
  that is false in Python, so \<open>None\<close> and \<open>0.0\<close>; there is no other validator.
  \<open>type\<close>: \<open>SelectField\<close> over the two choices. \<open>category\<close>: \<open>SelectField\<close> whose choices the
  view sets to the caller's categories; a value outside the choices is not valid.
  \<open>date\<close>: \<open>DateField\<close>, not valid when the text does not parse. \<open>description\<close> has no
  validator.
\<close>

definition amount_field :: "real option \<Rightarrow> string list" where
  "amount_field a = (case a of None \<Rightarrow> [''amount''] | Some x \<Rightarrow> if x = 0 then [''amount''] else [])"

definition type_field :: "string option \<Rightarrow> string list" where
  "type_field ty = (if ty \<in> set [Some ''expense'', Some ''income''] then [] else [''type''])"

definition category_field :: "int list \<Rightarrow> int option \<Rightarrow> string list" where
  "category_field choices c =
     (case c of None \<Rightarrow> [''category''] | Some k \<Rightarrow> if k \<in> set choices then [] else [''category''])"

definition date_field :: "pydate option \<Rightarrow> string list" where
  "date_field dt = (case dt of None \<Rightarrow> [''date''] | Some _ \<Rightarrow> [])"

definition csrf_field :: "bool \<Rightarrow> string list" where
  "csrf_field ok = (if ok then [] else [''csrf_token''])"

definition transaction_form_errors :: "int list \<Rightarrow> transaction_form \<Rightarrow> string list" where
  "transaction_form_errors choices f =
     amount_field (tf_amount f) @ type_field (tf_type f)
     @ category_field choices (tf_category f) @ date_field (tf_date f)
     @ csrf_field (tf_csrf_ok f)"

text \<open>
  \<open>form.validate()\<close> for a \<open>TransactionForm\<close>: the failing fields, or the data of a valid
  form.
\<close>

definition validate_transaction_form ::
    "int list \<Rightarrow> transaction_form \<Rightarrow> string list + transaction_data" where
  "validate_transaction_form choices f =
     (case (tf_amount f, tf_type f, tf_category f, tf_date f) of
        (Some a, Some ty, Some k, Some dt) \<Rightarrow>
          if transaction_form_errors choices f = []
          then Inr \<lparr>td_amount = a, td_type = ty, td_category = k, td_date = dt,
                    td_description = tf_description f\<rparr>
          else Inl (transaction_form_errors choices f)
      | _ \<Rightarrow> Inl (transaction_form_errors choices f))"

text \<open>
  \<open>str.strip()\<close> removes the characters for which \<open>str.isspace\<close> holds from both ends;
  these are the ones among the code points below 256.
\<close>

definition is_space :: "char \<Rightarrow> bool" where
  "is_space c \<longleftrightarrow>
     c \<in> set [CHR 0x09, CHR 0x0A, CHR 0x0B, CHR 0x0C, CHR 0x0D, CHR 0x1C, CHR 0x1D,
              CHR 0x1E, CHR 0x1F, CHR 0x20, CHR 0x85, CHR 0xA0]"

definition strip :: "string \<Rightarrow> string" where
  "strip s = rev (dropWhile is_space (rev (dropWhile is_space s)))"

text \<open>
  \<open>CategoryForm.name\<close>: \<open>DataRequired\<close> (present and not blank) and \<open>Length(1, 64)\<close>.
\<close>

definition validate_category_form :: "category_form \<Rightarrow> string list + string" where
  "validate_category_form f =
     (case cf_name f of
        None \<Rightarrow> Inl ([''name''] @ csrf_field (cf_csrf_ok f))
      | Some n \<Rightarrow>
          if strip n \<noteq> [] \<and> 1 \<le> length n \<and> length n \<le> 64 \<and> cf_csrf_ok f
          then Inr n
          else Inl ((if strip n \<noteq> [] \<and> 1 \<le> length n \<and> length n \<le> 64 then [] else [''name''])
                    @ csrf_field (cf_csrf_ok f)))"

section \<open>Queries\<close>

text \<open>
  \<open>order_by(Transaction.date.desc())\<close>: the rows by date, latest first. The statement
  names no second key, so it leaves the order among rows of equal date to the engine.
  \<open>date_desc_order rows res\<close> says what the statement promises of a result \<open>res\<close>: the
  same rows, each as often, and no row before a row of a later date.
  \<open>order_by_date_desc\<close> is one such result, the one that keeps rows of equal date in
  the order of the table; it stands where a view needs a value.
\<close>

definition date_desc_order :: "transaction list \<Rightarrow> transaction list \<Rightarrow> bool" where
  "date_desc_order rows res \<longleftrightarrow>
     mset res = mset rows
     \<and> sorted_wrt (\<lambda>a b. date_key (t_date b) \<le> date_key (t_date a)) res"

fun insort_desc :: "('a \<Rightarrow> 'k::linorder) \<Rightarrow> 'a \<Rightarrow> 'a list \<Rightarrow> 'a list" where
  "insort_desc f x [] = [x]"
| "insort_desc f x (y # ys) = (if f y \<le> f x then x # y # ys else y # insort_desc f x ys)"

definition sort_desc :: "('a \<Rightarrow> 'k::linorder) \<Rightarrow> 'a list \<Rightarrow> 'a list" where
  "sort_desc f xs = foldr (insort_desc f) xs []"

definition order_by_date_desc :: "transaction list \<Rightarrow> transaction list" where
  "order_by_date_desc ts = sort_desc (\<lambda>t. date_key (t_date t)) ts"

definition user_transactions :: "db \<Rightarrow> int \<Rightarrow> transaction list" where
  "user_transactions d uid = filter (\<lambda>t. t_user_id t = uid) (tx_table d)"

definition user_categories :: "db \<Rightarrow> int \<Rightarrow> category list" where
  "user_categories d uid = filter (\<lambda>c. c_user_id c = uid) (cat_table d)"

text \<open>
  \<open>func.sum(...)\<close> is NULL over no rows; \<open>.scalar() or 0\<close> turns NULL, and a sum that is
  zero, into 0.
\<close>

definition sql_sum :: "real list \<Rightarrow> real option" where
  "sql_sum xs = (if xs = [] then None else Some (sum_list xs))"

definition or0 :: "real option \<Rightarrow> real" where
  "or0 v = (case v of None \<Rightarrow> 0 | Some x \<Rightarrow> if x = 0 then 0 else x)"

section \<open>dashboard (app.py, lines 140-147)\<close>

record dashboard_page =
  dp_transactions :: "transaction list"
  dp_income :: real
  dp_expense :: real
  dp_balance :: real

definition dashboard :: "db \<Rightarrow> int \<Rightarrow> dashboard_page" where
  "dashboard d uid =
     (let transactions = take 10 (order_by_date_desc (user_transactions d uid));
          income = or0 (sql_sum (map t_amount
                     (filter (\<lambda>t. t_user_id t = uid \<and> t_type t = ''income'') (tx_table d))));
          expense = or0 (sql_sum (map t_amount
                     (filter (\<lambda>t. t_user_id t = uid \<and> t_type t = ''expense'') (tx_table d))));
          balance = income - expense
      in \<lparr>dp_transactions = transactions, dp_income = income, dp_expense = expense,
           dp_balance = balance\<rparr>)"

section \<open>transactions: the filtered, paginated listing (app.py, lines 149-173)\<close>

text \<open>
  SQLAlchemy renders \<open>a.ilike(p)\<close> for SQLite as \<open>lower(a) LIKE lower(p)\<close>. SQLite's
  \<open>lower\<close> changes the letters A to Z only.
\<close>

definition lower_char :: "char \<Rightarrow> char" where
  "lower_char c =
     (case map_of (zip ''ABCDEFGHIJKLMNOPQRSTUVWXYZ'' ''abcdefghijklmnopqrstuvwxyz'') c of
        None \<Rightarrow> c
      | Some l \<Rightarrow> l)"

definition sql_lower :: "string \<Rightarrow> string" where
  "sql_lower s = map lower_char s"

text \<open>
  SQLite reads the pattern and the text of \<open>LIKE\<close> as C strings: each one ends before
  its first character U+0000.
\<close>

definition c_string :: "string \<Rightarrow> string" where
  "c_string s = takeWhile (\<lambda>c. c \<noteq> CHR 0x00) s"

text \<open>
  The comparison of \<open>LIKE\<close>: in the pattern, \<open>%\<close> stands for any run of characters, also
  the empty one, and \<open>_\<close> for any one character; every other character stands for
  itself. The first argument is the pattern, the second the text.
\<close>

fun pattern_compare :: "string \<Rightarrow> string \<Rightarrow> bool" where
  "pattern_compare [] s = (s = [])"
| "pattern_compare (p # ps) [] = (p = CHR ''%'' \<and> pattern_compare ps [])"
| "pattern_compare (p # ps) (c # cs) =
     (if p = CHR ''%'' then pattern_compare ps (c # cs) \<or> pattern_compare (p # ps) cs
      else (p = CHR ''_'' \<or> p = c) \<and> pattern_compare ps cs)"

definition like_match :: "string \<Rightarrow> string \<Rightarrow> bool" where
  "like_match pat s = pattern_compare (c_string pat) (c_string s)"

text \<open>SQL's three truth values: \<open>None\<close> is NULL. A comparison with NULL is NULL.\<close>

definition ilike :: "string option \<Rightarrow> string \<Rightarrow> bool option" where
  "ilike a pat = map_option (\<lambda>s. like_match (sql_lower pat) (sql_lower s)) a"

definition sql_or :: "bool option \<Rightarrow> bool option \<Rightarrow> bool option" where
  "sql_or a b =
     (if a = Some True \<or> b = Some True then Some True
      else if a = None \<or> b = None then None
      else Some False)"

text \<open>
  \<open>q.join(Category, isouter=True)\<close>: the left outer join on the foreign key
  \<open>transaction.category_id = category.id\<close>. A transaction without a matching category
  row is kept once, with NULL for the category's columns.
\<close>

definition outer_join_category ::
    "category list \<Rightarrow> transaction list \<Rightarrow> (transaction \<times> category option) list" where
  "outer_join_category cs ts =
     concat (map (\<lambda>t. case filter (\<lambda>c. t_category_id t = Some (c_id c)) cs of
                        [] \<Rightarrow> [(t, None)]
                      | m # ms \<Rightarrow> map (\<lambda>c. (t, Some c)) (m # ms)) ts)"

definition search_filter :: "string \<Rightarrow> transaction \<times> category option \<Rightarrow> bool option" where
  "search_filter search_term r =
     (let pat = ''%'' @ search_term @ ''%'' in
      sql_or (sql_or (ilike (t_description (fst r)) pat)
                     (ilike (Some (t_type (fst r))) pat))
             (ilike (map_option c_name (snd r)) pat))"

text \<open>
  The query of the view before \<open>order_by\<close>: the caller's rows, narrowed by the search
  term when it is not empty after \<open>strip()\<close>. \<open>WHERE\<close> keeps the rows whose condition is
  true.
\<close>

definition filtered_rows :: "db \<Rightarrow> int \<Rightarrow> string \<Rightarrow> transaction list" where
  "filtered_rows d uid q_arg =
     (let search_term = strip q_arg;
          q = user_transactions d uid
      in if search_term \<noteq> []
         then map fst (filter (\<lambda>r. search_filter search_term r = Some True)
                              (outer_join_category (cat_table d) q))
         else q)"

text \<open>The query of the view, ordered, before pagination.\<close>

definition listing_query :: "db \<Rightarrow> int \<Rightarrow> string \<Rightarrow> transaction list" where
  "listing_query d uid q_arg = order_by_date_desc (filtered_rows d uid q_arg)"

text \<open>
  Flask-SQLAlchemy's \<open>paginate(page, per_page)\<close> with its default \<open>error_out=True\<close>: it
  aborts with 404 when \<open>page\<close> is below 1, and when the page has no items and \<open>page\<close> is
  not 1. Otherwise the page holds \<open>per_page\<close> rows from offset \<open>(page - 1) * per_page\<close>,
  and the count of all rows of the query.
\<close>

record pagination =
  pg_items :: "transaction list"
  pg_total :: nat
  pg_page :: int
  pg_per_page :: nat

definition paginate :: "transaction list \<Rightarrow> int \<Rightarrow> nat \<Rightarrow> error + pagination" where
  "paginate rows page per_page =
     (if page < 1 then Inl NotFound
      else let items = take per_page (drop (nat (page - 1) * per_page) rows)
           in if items = [] \<and> page \<noteq> 1 then Inl NotFound
              else Inr \<lparr>pg_items = items, pg_total = length rows, pg_page = page,
                        pg_per_page = per_page\<rparr>)"

definition transactions :: "db \<Rightarrow> int \<Rightarrow> int \<Rightarrow> string \<Rightarrow> error + pagination" where
  "transactions d uid page q_arg = paginate (listing_query d uid q_arg) page 20"


section \<open>Transaction routes (app.py, lines 175-225)\<close>

text \<open>
  \<open>form.category.data if form.category.data else None\<close>: the integer 0 is false in
  Python, so it is stored as NULL.
\<close>

definition category_or_none :: "int \<Rightarrow> int option" where
  "category_or_none k = (if k \<noteq> 0 then Some k else None)"

definition add_transaction :: "db \<Rightarrow> int \<Rightarrow> transaction_form request \<Rightarrow> response \<times> db" where
  "add_transaction d uid req =
     (let categories = user_categories d uid;
          choices = map c_id categories
      in case req of
           GET \<Rightarrow> (Render ''add_transaction.html'' [], d)
         | POST f \<Rightarrow>
             (case validate_transaction_form choices f of
                Inr v \<Rightarrow>
                  (let t = \<lparr>t_id = next_id (map t_id (tx_table d)),
                            t_amount = td_amount v,
                            t_type = td_type v,
                            t_description = td_description v,
                            t_date = td_date v,
                            t_category_id = category_or_none (td_category v),
                            t_user_id = uid\<rparr>
                   in (Redirect ''transactions'', d\<lparr>tx_table := tx_table d @ [t]\<rparr>))
              | Inl errs \<Rightarrow> (Render ''add_transaction.html'' errs, d)))"

definition edit_transaction ::
    "db \<Rightarrow> int \<Rightarrow> int \<Rightarrow> transaction_form request \<Rightarrow> (error + response) \<times> db" where
  "edit_transaction d uid tx_id req =
     (case find (\<lambda>t. t_id t = tx_id \<and> t_user_id t = uid) (tx_table d) of
        None \<Rightarrow> (Inl NotFound, d)
      | Some t \<Rightarrow>
          (let categories = user_categories d uid;
               choices = map c_id categories
           in case req of
                GET \<Rightarrow> (Inr (Render ''edit_transaction.html'' []), d)
              | POST f \<Rightarrow>
                  (case validate_transaction_form choices f of
                     Inr v \<Rightarrow>
                       (Inr (Redirect ''transactions''),
                        d\<lparr>tx_table :=
                            map (\<lambda>x. if t_id x = t_id t
                                      then x\<lparr>t_amount := td_amount v,
                                             t_type := td_type v,
                                             t_description := td_description v,
                                             t_date := td_date v,
                                             t_category_id := category_or_none (td_category v)\<rparr>
                                      else x)
                                (tx_table d)\<rparr>)
                   | Inl errs \<Rightarrow> (Inr (Render ''edit_transaction.html'' errs), d))))"

definition delete_transaction :: "db \<Rightarrow> int \<Rightarrow> int \<Rightarrow> (error + response) \<times> db" where
  "delete_transaction d uid tx_id =
     (case find (\<lambda>t. t_id t = tx_id \<and> t_user_id t = uid) (tx_table d) of
        None \<Rightarrow> (Inl NotFound, d)
      | Some t \<Rightarrow>
          (Inr (Redirect ''transactions''),
           d\<lparr>tx_table := filter (\<lambda>x. t_id x \<noteq> t_id t) (tx_table d)\<rparr>))"

section \<open>Category routes (app.py, lines 227-261)\<close>

definition add_category :: "db \<Rightarrow> int \<Rightarrow> category_form request \<Rightarrow> response \<times> db" where
  "add_category d uid req =
     (case req of
        GET \<Rightarrow> (Render ''add_category.html'' [], d)
      | POST f \<Rightarrow>
          (case validate_category_form f of
             Inr n \<Rightarrow>
               (let c = \<lparr>c_id = next_id (map c_id (cat_table d)), c_name = n, c_user_id = uid\<rparr>
                in (Redirect ''add_transaction'', d\<lparr>cat_table := cat_table d @ [c]\<rparr>))
           | Inl errs \<Rightarrow> (Render ''add_category.html'' errs, d)))"

definition edit_category ::
    "db \<Rightarrow> int \<Rightarrow> int \<Rightarrow> category_form request \<Rightarrow> (error + response) \<times> db" where
  "edit_category d uid cat_id req =
     (case find (\<lambda>c. c_id c = cat_id \<and> c_user_id c = uid) (cat_table d) of
        None \<Rightarrow> (Inl NotFound, d)
      | Some c \<Rightarrow>
          (case req of
             GET \<Rightarrow> (Inr (Render ''edit_category.html'' []), d)
           | POST f \<Rightarrow>
               (case validate_category_form f of
                  Inr n \<Rightarrow>
                    (Inr (Redirect ''add_transaction''),
                     d\<lparr>cat_table :=
                         map (\<lambda>x. if c_id x = c_id c then x\<lparr>c_name := n\<rparr> else x) (cat_table d)\<rparr>)
                | Inl errs \<Rightarrow> (Inr (Render ''edit_category.html'' errs), d))))"

text \<open>
  \<open>db.session.delete(c)\<close>: the relationship \<open>Category.transactions\<close> has no delete cascade,
  so at the flush SQLAlchemy sets \<open>category_id\<close> to NULL in every transaction that refers
  to the category and then deletes the category's row. The transactions stay.
\<close>

definition delete_category :: "db \<Rightarrow> int \<Rightarrow> int \<Rightarrow> (error + response) \<times> db" where
  "delete_category d uid cat_id =
     (case find (\<lambda>c. c_id c = cat_id \<and> c_user_id c = uid) (cat_table d) of
        None \<Rightarrow> (Inl NotFound, d)
      | Some c \<Rightarrow>
          (Inr (Redirect ''add_transaction''),
           d\<lparr>tx_table :=
               map (\<lambda>t. if t_category_id t = Some (c_id c) then t\<lparr>t_category_id := None\<rparr> else t)
                   (tx_table d),
             cat_table := filter (\<lambda>x. c_id x \<noteq> c_id c) (cat_table d)\<rparr>))"

section \<open>export_csv (app.py, lines 263-275)\<close>

text \<open>
  \<open>date.isoformat()\<close> is \<open>'%04d-%02d-%02d' % (year, month, day)\<close>. \<open>pad4\<close> and \<open>pad2\<close> are
  the four and two lowest decimal digits, which is the whole number for a year up to
  9999 and a month or day up to 99.
\<close>

definition digit :: "nat \<Rightarrow> char" where
  "digit n = ''0123456789'' ! (n mod 10)"

definition pad2 :: "nat \<Rightarrow> string" where
  "pad2 n = [digit (n div 10), digit n]"

definition pad4 :: "nat \<Rightarrow> string" where
  "pad4 n = [digit (n div 1000), digit (n div 100), digit (n div 10), digit n]"

definition isoformat :: "pydate \<Rightarrow> string" where
  "isoformat d = pad4 (year d) @ ''-'' @ pad2 (month d) @ ''-'' @ pad2 (day d)"

text \<open>
  The values handed to \<open>csv.writer.writerow\<close>: strings, and the amount as the number
  it is.
\<close>

datatype cell = Str string | Num real

definition csv_row :: "db \<Rightarrow> transaction \<Rightarrow> cell list" where
  "csv_row d t =
     [Str (isoformat (t_date t)),
      Str (t_type t),
      Num (t_amount t),
      Str (case tx_category d t of Some c \<Rightarrow> c_name c | None \<Rightarrow> []),
      Str (case t_description t of None \<Rightarrow> [] | Some s \<Rightarrow> s)]"

definition export_csv :: "db \<Rightarrow> int \<Rightarrow> cell list list" where
  "export_csv d uid =
     (let txs = order_by_date_desc (user_transactions d uid)
      in [Str ''Date'', Str ''Type'', Str ''Amount'', Str ''Category'', Str ''Description'']
         # map (csv_row d) txs)"

section \<open>api_summary (app.py, lines 318-332)\<close>

text \<open>\<open>strftime('%Y-%m', date)\<close>: the year in four digits and the month in two.\<close>

definition strftime_ym :: "pydate \<Rightarrow> string" where
  "strftime_ym d = pad4 (year d) @ ''-'' @ pad2 (month d)"

definition income_case :: "transaction \<Rightarrow> real" where
  "income_case t = (if t_type t = ''income'' then t_amount t else 0)"

definition expense_case :: "transaction \<Rightarrow> real" where
  "expense_case t = (if t_type t = ''expense'' then t_amount t else 0)"

record summary_row =
  period :: string
  income :: real
  expense :: real

text \<open>
  The query groups the caller's rows by \<open>ym\<close> and orders the groups by \<open>ym\<close>, a text
  column: one row for each value of \<open>ym\<close> that occurs, with the sums over its group.
\<close>

definition api_summary :: "db \<Rightarrow> int \<Rightarrow> summary_row list" where
  "api_summary d uid =
     (let txs = filter (\<lambda>t. t_user_id t = uid) (tx_table d);
          ym = (\<lambda>t. strftime_ym (t_date t));
          groups = sort (remdups (map ym txs))
      in map (\<lambda>k. let grp = filter (\<lambda>t. ym t = k) txs
                   in \<lparr>period = k,
                       income = or0 (sql_sum (map income_case grp)),
                       expense = or0 (sql_sum (map expense_case grp))\<rparr>)
             groups)"

section \<open>The category reference of a transaction\<close>

text \<open>
  Every category reference that is present points to an existing row of \<open>category\<close>
  owned by the transaction's user.
\<close>

definition category_refs_owned :: "db \<Rightarrow> bool" where
  "category_refs_owned d \<longleftrightarrow>
     list_all (\<lambda>t. case t_category_id t of
                     None \<Rightarrow> True
                   | Some k \<Rightarrow> list_ex (\<lambda>c. c_id c = k \<and> c_user_id c = t_user_id t) (cat_table d))
              (tx_table d)"

definition db_inv :: "db \<Rightarrow> bool" where
  "db_inv d \<longleftrightarrow> db_keys_ok d \<and> category_refs_owned d"

section \<open>Notions used in the statements\<close>

text \<open>The amounts of a user's transactions of one type, in table order.\<close>

definition typed_amounts :: "db \<Rightarrow> int \<Rightarrow> string \<Rightarrow> real list" where
  "typed_amounts d uid ty = map t_amount (filter (\<lambda>t. t_type t = ty) (user_transactions d uid))"

text \<open>
  A search term that \<open>LIKE\<close> reads letter by letter: it holds neither of the two
  wildcards nor the character U+0000. A stored text that \<open>LIKE\<close> reads whole holds no
  U+0000.
\<close>

definition plain_term :: "string \<Rightarrow> bool" where
  "plain_term s \<longleftrightarrow> CHR ''%'' \<notin> set s \<and> CHR ''_'' \<notin> set s \<and> CHR 0x00 \<notin> set s"

definition nul_free :: "string \<Rightarrow> bool" where
  "nul_free s \<longleftrightarrow> CHR 0x00 \<notin> set s"

definition texts_nul_free :: "db \<Rightarrow> bool" where
  "texts_nul_free d \<longleftrightarrow>
     list_all (\<lambda>t. (case t_description t of None \<Rightarrow> True | Some s \<Rightarrow> nul_free s)
                    \<and> nul_free (t_type t)) (tx_table d)
     \<and> list_all (\<lambda>c. nul_free (c_name c)) (cat_table d)"

text \<open>
  A small database: user 1 holds the three transactions of the monthly example (January
  income 100 and expense 30, March income 50) and two categories; user 2 holds one
  transaction and one category.
\<close>

definition ledger :: db where
  "ledger = \<lparr>tx_table =
      [\<lparr>t_id = 1, t_amount = 100, t_type = ''income'', t_description = Some ''Salary January'',
        t_date = \<lparr>year = 2024, month = 1, day = 5\<rparr>, t_category_id = Some 2, t_user_id = 1\<rparr>,
       \<lparr>t_id = 2, t_amount = 30, t_type = ''expense'', t_description = Some ''Groceries run'',
        t_date = \<lparr>year = 2024, month = 1, day = 20\<rparr>, t_category_id = Some 1, t_user_id = 1\<rparr>,
       \<lparr>t_id = 3, t_amount = 50, t_type = ''income'', t_description = None,
        t_date = \<lparr>year = 2024, month = 3, day = 1\<rparr>, t_category_id = None, t_user_id = 1\<rparr>,
       \<lparr>t_id = 4, t_amount = 75, t_type = ''expense'', t_description = Some ''Power'',
        t_date = \<lparr>year = 2024, month = 2, day = 10\<rparr>, t_category_id = Some 3, t_user_id = 2\<rparr>],
     cat_table =
      [\<lparr>c_id = 1, c_name = ''Food'', c_user_id = 1\<rparr>,
       \<lparr>c_id = 2, c_name = ''Salary'', c_user_id = 1\<rparr>,
       \<lparr>c_id = 3, c_name = ''Bills'', c_user_id = 2\<rparr>]\<rparr>"

text \<open>The caller owns a row with the given primary key.\<close>

definition owns_transaction :: "db \<Rightarrow> int \<Rightarrow> int \<Rightarrow> bool" where
  "owns_transaction d uid i \<longleftrightarrow> list_ex (\<lambda>t. t_id t = i \<and> t_user_id t = uid) (tx_table d)"

definition owns_category :: "db \<Rightarrow> int \<Rightarrow> int \<Rightarrow> bool" where
  "owns_category d uid i \<longleftrightarrow> list_ex (\<lambda>c. c_id c = i \<and> c_user_id c = uid) (cat_table d)"

text \<open>A submitted form whose fields other than the amount are valid for user 1 of \<open>ledger\<close>.\<close>

definition form_with_amount :: "real option \<Rightarrow> transaction_form" where
  "form_with_amount a =
     \<lparr>tf_csrf_ok = True, tf_amount = a, tf_type = Some ''expense'', tf_category = Some 1,
      tf_date = Some \<lparr>year = 2024, month = 4, day = 2\<rparr>, tf_description = Some ''Lunch''\<rparr>"

text \<open>
  The filter as the specification words it. Two characters are the same letter when
  they are equal or are the capital and the small form of one of the letters A to Z;
  \<open>q\<close> is a case-insensitive substring of \<open>s\<close> when \<open>s\<close> holds, somewhere, the letters of
  \<open>q\<close> in a row; a transaction matches when \<open>q\<close> is such a substring of its description,
  of its type, or of the name of its category.
\<close>

definition letter_pairs :: "(char \<times> char) list" where
  "letter_pairs = zip ''ABCDEFGHIJKLMNOPQRSTUVWXYZ'' ''abcdefghijklmnopqrstuvwxyz''"

definition same_letter :: "char \<Rightarrow> char \<Rightarrow> bool" where
  "same_letter a b \<longleftrightarrow> a = b \<or> (a, b) \<in> set letter_pairs \<or> (b, a) \<in> set letter_pairs"

fun ci_prefix :: "string \<Rightarrow> string \<Rightarrow> bool" where
  "ci_prefix [] s = True"
| "ci_prefix (a # q) [] = False"
| "ci_prefix (a # q) (b # s) = (same_letter a b \<and> ci_prefix q s)"

fun ci_contains :: "string \<Rightarrow> string \<Rightarrow> bool" where
  "ci_contains q [] = (q = [])"
| "ci_contains q (c # s) = (ci_prefix q (c # s) \<or> ci_contains q s)"

definition tx_matches :: "db \<Rightarrow> string \<Rightarrow> transaction \<Rightarrow> bool" where
  "tx_matches d q t \<longleftrightarrow>
     (case t_description t of None \<Rightarrow> False | Some s \<Rightarrow> ci_contains q s)
     \<or> ci_contains q (t_type t)
     \<or> (case tx_category d t of None \<Rightarrow> False | Some c \<Rightarrow> ci_contains q (c_name c))"

text \<open>
  The calendar: date \<open>a\<close> is not earlier than date \<open>b\<close>. Rows are in order of date,
  latest first, when no row comes before a row of a later date.
\<close>

definition not_earlier :: "pydate \<Rightarrow> pydate \<Rightarrow> bool" where
  "not_earlier a b \<longleftrightarrow>
     year b < year a
     \<or> (year a = year b \<and> (month b < month a \<or> (month a = month b \<and> day b \<le> day a)))"

definition date_descending :: "transaction list \<Rightarrow> bool" where
  "date_descending ts \<longleftrightarrow> sorted_wrt (\<lambda>a b. not_earlier (t_date a) (t_date b)) ts"




text \<open>A database with 45 transactions of user 1, several on each date.\<close>

definition busy_ledger :: db where
  "busy_ledger =
     \<lparr>tx_table =
        map (\<lambda>i. \<lparr>t_id = int i, t_amount = 10, t_type = ''expense'', t_description = None,
                   t_date = \<lparr>year = 2024, month = 1 + i mod 12, day = 1\<rparr>,
                   t_category_id = None, t_user_id = 1\<rparr>) [1..<46],
      cat_table = []\<rparr>"

text \<open>
  The amounts of a user's transactions of one type in one month, the month given as its
  \<open>YYYY-MM\<close> text.
\<close>

definition month_amounts :: "db \<Rightarrow> int \<Rightarrow> string \<Rightarrow> string \<Rightarrow> real list" where
  "month_amounts d uid ym ty =
     map t_amount (filter (\<lambda>t. strftime_ym (t_date t) = ym \<and> t_type t = ty)
                          (user_transactions d uid))"

text \<open>The header row of the export.\<close>

definition csv_header :: "cell list" where
  "csv_header = [Str ''Date'', Str ''Type'', Str ''Amount'', Str ''Category'', Str ''Description'']"

text \<open>The shape \<open>YYYY-MM-DD\<close>: ten characters, digits but for the two hyphens.\<close>

definition iso_shaped :: "string \<Rightarrow> bool" where
  "iso_shaped s \<longleftrightarrow>
     length s = 10 \<and> s ! 4 = CHR ''-'' \<and> s ! 7 = CHR ''-''
     \<and> list_all (\<lambda>i. s ! i \<in> set ''0123456789'') [0, 1, 2, 3, 5, 6, 8, 9]"

text \<open>A transaction with its reference to category \<open>k\<close>, if it has one, set to NULL.\<close>

definition clear_category :: "int \<Rightarrow> transaction \<Rightarrow> transaction" where
  "clear_category k t = (if t_category_id t = Some k then t\<lparr>t_category_id := None\<rparr> else t)"

section \<open>Totals and balance of the dashboard\<close>

lemma or0_sql_sum: "or0 (sql_sum xs) = sum_list xs"
  by (simp add: or0_def sql_sum_def)

text \<open>
  Claim C2. For every user, the dashboard's income is the sum of the amounts of the
  user's transactions of type income, its expense the sum for type expense, each 0 when
  the user has no such transaction, and the balance is income minus expense.
\<close>

theorem dashboard_totals:
  "dp_income (dashboard d uid) = sum_list (typed_amounts d uid ''income'')
   \<and> dp_expense (dashboard d uid) = sum_list (typed_amounts d uid ''expense'')
   \<and> dp_balance (dashboard d uid) = dp_income (dashboard d uid) - dp_expense (dashboard d uid)
   \<and> (typed_amounts d uid ''income'' = [] \<longrightarrow> dp_income (dashboard d uid) = 0)
   \<and> (typed_amounts d uid ''expense'' = [] \<longrightarrow> dp_expense (dashboard d uid) = 0)"
proof -
  have inc: "dp_income (dashboard d uid) = sum_list (typed_amounts d uid ''income'')"
    by (simp add: dashboard_def Let_def or0_sql_sum typed_amounts_def user_transactions_def)
  have exp: "dp_expense (dashboard d uid) = sum_list (typed_amounts d uid ''expense'')"
    by (simp add: dashboard_def Let_def or0_sql_sum typed_amounts_def user_transactions_def)
  have bal: "dp_balance (dashboard d uid) = dp_income (dashboard d uid) - dp_expense (dashboard d uid)"
    by (simp add: dashboard_def Let_def)
  from inc exp bal show ?thesis by simp
qed

theorem dashboard_totals_witness:
  "typed_amounts ledger 1 ''income'' = [100, 50]
   \<and> typed_amounts ledger 1 ''expense'' = [30]
   \<and> dp_income (dashboard ledger 1) = 150
   \<and> dp_expense (dashboard ledger 1) = 30
   \<and> dp_balance (dashboard ledger 1) = 120
   \<and> typed_amounts ledger 7 ''income'' = []
   \<and> typed_amounts ledger 7 ''expense'' = []
   \<and> dp_income (dashboard ledger 7) = 0
   \<and> dp_expense (dashboard ledger 7) = 0
   \<and> dp_balance (dashboard ledger 7) = 0"
proof -
  have a: "typed_amounts ledger 1 ''income'' = [100, 50]"
    by (simp add: typed_amounts_def user_transactions_def ledger_def)
  have b: "typed_amounts ledger 1 ''expense'' = [30]"
    by (simp add: typed_amounts_def user_transactions_def ledger_def)
  have c: "typed_amounts ledger 7 ''income'' = []"
    by (simp add: typed_amounts_def user_transactions_def ledger_def)
  have d: "typed_amounts ledger 7 ''expense'' = []"
    by (simp add: typed_amounts_def user_transactions_def ledger_def)
  show ?thesis
    using dashboard_totals [of ledger 1] dashboard_totals [of ledger 7]
    by (simp add: a b c d)
qed

section \<open>Rows of other users\<close>

lemma find_not_owned_tx:
  "\<not> owns_transaction d uid i \<Longrightarrow> find (\<lambda>t. t_id t = i \<and> t_user_id t = uid) (tx_table d) = None"
  by (simp add: owns_transaction_def list_ex_iff find_None_iff)

lemma find_not_owned_cat:
  "\<not> owns_category d uid i \<Longrightarrow> find (\<lambda>c. c_id c = i \<and> c_user_id c = uid) (cat_table d) = None"
  by (simp add: owns_category_def list_ex_iff find_None_iff)

text \<open>
  Claim C1. When the caller owns no transaction (no category) with the given id, whether
  the id is absent or belongs to another user, the edit view (GET to retrieve, POST to
  update) and the delete view answer \<open>NotFound\<close> and leave the database as it is; the
  answer is the same for any two such ids and databases.
\<close>

theorem not_owned_not_found:
  "(\<not> owns_transaction d uid i \<and> \<not> owns_transaction d' uid i' \<longrightarrow>
      edit_transaction d uid i req = (Inl NotFound, d)
      \<and> delete_transaction d uid i = (Inl NotFound, d)
      \<and> fst (edit_transaction d uid i req) = fst (edit_transaction d' uid i' req)
      \<and> fst (delete_transaction d uid i) = fst (delete_transaction d' uid i'))
   \<and> (\<not> owns_category d uid j \<and> \<not> owns_category d' uid j' \<longrightarrow>
      edit_category d uid j creq = (Inl NotFound, d)
      \<and> delete_category d uid j = (Inl NotFound, d)
      \<and> fst (edit_category d uid j creq) = fst (edit_category d' uid j' creq)
      \<and> fst (delete_category d uid j) = fst (delete_category d' uid j'))"
  by (simp add: edit_transaction_def delete_transaction_def edit_category_def
      delete_category_def find_not_owned_tx find_not_owned_cat)

theorem not_owned_not_found_witness:
  "owns_transaction ledger 2 4 \<and> \<not> owns_transaction ledger 1 4 \<and> \<not> owns_transaction ledger 1 99
   \<and> edit_transaction ledger 1 4 GET = (Inl NotFound, ledger)
   \<and> edit_transaction ledger 1 99 GET = (Inl NotFound, ledger)
   \<and> delete_transaction ledger 1 4 = (Inl NotFound, ledger)
   \<and> delete_transaction ledger 1 99 = (Inl NotFound, ledger)
   \<and> owns_category ledger 2 3 \<and> \<not> owns_category ledger 1 3 \<and> \<not> owns_category ledger 1 99
   \<and> edit_category ledger 1 3 (POST \<lparr>cf_csrf_ok = True, cf_name = Some ''Mine''\<rparr>) = (Inl NotFound, ledger)
   \<and> edit_category ledger 1 99 (POST \<lparr>cf_csrf_ok = True, cf_name = Some ''Mine''\<rparr>) = (Inl NotFound, ledger)
   \<and> delete_category ledger 1 3 = (Inl NotFound, ledger)
   \<and> delete_category ledger 1 99 = (Inl NotFound, ledger)"
proof -
  have t: "owns_transaction ledger 2 4" "\<not> owns_transaction ledger 1 4" "\<not> owns_transaction ledger 1 99"
    by (simp_all add: owns_transaction_def ledger_def)
  have c: "owns_category ledger 2 3" "\<not> owns_category ledger 1 3" "\<not> owns_category ledger 1 99"
    by (simp_all add: owns_category_def ledger_def)
  show ?thesis
    using not_owned_not_found [of ledger 1 4 ledger 99 GET 3 99
        "POST \<lparr>cf_csrf_ok = True, cf_name = Some ''Mine''\<rparr>"]
      not_owned_not_found [of ledger 1 99 ledger 4 GET 99 3
        "POST \<lparr>cf_csrf_ok = True, cf_name = Some ''Mine''\<rparr>"]
    by (simp add: t c)
qed

section \<open>Validation of the amount on create\<close>

lemma validate_amount_missing:
  "tf_amount f = None \<or> tf_amount f = Some 0 \<Longrightarrow>
   validate_transaction_form ch f = Inl (transaction_form_errors ch f)
   \<and> ''amount'' \<in> set (transaction_form_errors ch f)"
  by (auto simp: validate_transaction_form_def transaction_form_errors_def amount_field_def
      split: option.splits)

lemma validate_Inr:
  "validate_transaction_form ch f = Inr v \<Longrightarrow>
   tf_amount f = Some (td_amount v) \<and> td_amount v \<noteq> 0
   \<and> tf_type f = Some (td_type v) \<and> td_type v \<in> {''expense'', ''income''}
   \<and> tf_category f = Some (td_category v) \<and> td_category v \<in> set ch
   \<and> tf_date f = Some (td_date v) \<and> td_description v = tf_description f \<and> tf_csrf_ok f"
  by (auto simp: validate_transaction_form_def transaction_form_errors_def amount_field_def
      type_field_def category_field_def date_field_def csrf_field_def
      split: option.splits if_splits)

lemma validate_ok:
  "tf_amount f = Some a \<Longrightarrow> a \<noteq> 0 \<Longrightarrow> tf_type f = Some ty \<Longrightarrow> ty \<in> {''expense'', ''income''} \<Longrightarrow>
   tf_category f = Some k \<Longrightarrow> k \<in> set ch \<Longrightarrow> tf_date f = Some dt \<Longrightarrow> tf_csrf_ok f \<Longrightarrow>
   validate_transaction_form ch f =
     Inr \<lparr>td_amount = a, td_type = ty, td_category = k, td_date = dt,
          td_description = tf_description f\<rparr>"
  by (auto simp: validate_transaction_form_def transaction_form_errors_def amount_field_def
      type_field_def category_field_def date_field_def csrf_field_def)

text \<open>
  Claim C4, as the code has it. A create attempt whose amount is missing or zero is
  rejected: the form is rendered again with an error on \<open>amount\<close> and the database is
  unchanged. A request either leaves the database as it is or appends one transaction,
  whose amount is the submitted one and is not zero. There is no check of the sign: a
  form with a non-zero amount, a type among the two choices, a category of the caller, a
  date and a valid token is accepted and stored as given.
\<close>

theorem add_transaction_amount:
  "(tf_amount f = None \<or> tf_amount f = Some 0 \<longrightarrow>
      (\<exists>errs. add_transaction d uid (POST f) = (Render ''add_transaction.html'' errs, d)
              \<and> ''amount'' \<in> set errs))
   \<and> (snd (add_transaction d uid req) = d
       \<or> (\<exists>g a t. req = POST g \<and> tf_amount g = Some a \<and> a \<noteq> 0 \<and> t_amount t = a
                  \<and> snd (add_transaction d uid req) = d\<lparr>tx_table := tx_table d @ [t]\<rparr>))
   \<and> (tf_amount f = Some a \<and> a \<noteq> 0 \<and> tf_type f = Some ty \<and> ty \<in> {''expense'', ''income''}
       \<and> tf_category f = Some k \<and> owns_category d uid k \<and> tf_date f = Some dt \<and> tf_csrf_ok f \<longrightarrow>
       add_transaction d uid (POST f) =
         (Redirect ''transactions'',
          d\<lparr>tx_table := tx_table d @
               [\<lparr>t_id = next_id (map t_id (tx_table d)), t_amount = a, t_type = ty,
                 t_description = tf_description f, t_date = dt,
                 t_category_id = category_or_none k, t_user_id = uid\<rparr>]\<rparr>))"
proof (intro conjI impI)
  assume "tf_amount f = None \<or> tf_amount f = Some 0"
  from validate_amount_missing [OF this]
  show "\<exists>errs. add_transaction d uid (POST f) = (Render ''add_transaction.html'' errs, d)
              \<and> ''amount'' \<in> set errs"
    by (simp add: add_transaction_def)
next
  show "snd (add_transaction d uid req) = d
       \<or> (\<exists>g a t. req = POST g \<and> tf_amount g = Some a \<and> a \<noteq> 0 \<and> t_amount t = a
                  \<and> snd (add_transaction d uid req) = d\<lparr>tx_table := tx_table d @ [t]\<rparr>)"
  proof (cases req)
    case GET
    then show ?thesis by (simp add: add_transaction_def)
  next
    case (POST g)
    show ?thesis
    proof (cases "validate_transaction_form (map c_id (user_categories d uid)) g")
      case (Inl errs)
      with POST show ?thesis by (simp add: add_transaction_def)
    next
      case (Inr v)
      from validate_Inr [OF Inr] have "tf_amount g = Some (td_amount v)" "td_amount v \<noteq> 0"
        by simp_all
      let ?t = "\<lparr>t_id = next_id (map t_id (tx_table d)), t_amount = td_amount v,
                 t_type = td_type v, t_description = td_description v, t_date = td_date v,
                 t_category_id = category_or_none (td_category v), t_user_id = uid\<rparr>"
      from POST Inr
      have "snd (add_transaction d uid req) = d\<lparr>tx_table := tx_table d @ [?t]\<rparr>"
        by (simp add: add_transaction_def Let_def)
      moreover have "t_amount ?t = td_amount v" by simp
      ultimately have "req = POST g \<and> tf_amount g = Some (td_amount v) \<and> td_amount v \<noteq> 0
          \<and> t_amount ?t = td_amount v
          \<and> snd (add_transaction d uid req) = d\<lparr>tx_table := tx_table d @ [?t]\<rparr>"
        using POST \<open>tf_amount g = Some (td_amount v)\<close> \<open>td_amount v \<noteq> 0\<close> by simp
      then show ?thesis by blast
    qed
  qed
next
  assume a: "tf_amount f = Some a \<and> a \<noteq> 0 \<and> tf_type f = Some ty \<and> ty \<in> {''expense'', ''income''}
       \<and> tf_category f = Some k \<and> owns_category d uid k \<and> tf_date f = Some dt \<and> tf_csrf_ok f"
  then have "k \<in> set (map c_id (user_categories d uid))"
    by (auto simp: owns_category_def user_categories_def list_ex_iff)
  with a have "validate_transaction_form (map c_id (user_categories d uid)) f =
     Inr \<lparr>td_amount = a, td_type = ty, td_category = k, td_date = dt,
          td_description = tf_description f\<rparr>"
    by (intro validate_ok) simp_all
  then show "add_transaction d uid (POST f) =
         (Redirect ''transactions'',
          d\<lparr>tx_table := tx_table d @
               [\<lparr>t_id = next_id (map t_id (tx_table d)), t_amount = a, t_type = ty,
                 t_description = tf_description f, t_date = dt,
                 t_category_id = category_or_none k, t_user_id = uid\<rparr>]\<rparr>)"
    by (simp add: add_transaction_def Let_def)
qed

text \<open>
  Claim C4 as stated fails: a create attempt with the negative amount \<open>-5\<close> is accepted
  and the transaction is stored.
\<close>

theorem negative_amount_accepted:
  "add_transaction ledger 1 (POST (form_with_amount (Some (- 5)))) =
     (Redirect ''transactions'',
      ledger\<lparr>tx_table := tx_table ledger @
        [\<lparr>t_id = 5, t_amount = - 5, t_type = ''expense'', t_description = Some ''Lunch'',
          t_date = \<lparr>year = 2024, month = 4, day = 2\<rparr>, t_category_id = Some 1, t_user_id = 1\<rparr>]\<rparr>)"
  by (simp add: add_transaction_def Let_def form_with_amount_def ledger_def user_categories_def
      validate_transaction_form_def transaction_form_errors_def amount_field_def
      type_field_def category_field_def date_field_def csrf_field_def next_id_def
      category_or_none_def)

theorem add_transaction_amount_witness:
  "tf_amount (form_with_amount (Some 0)) = Some 0
   \<and> (\<exists>errs. add_transaction ledger 1 (POST (form_with_amount (Some 0))) =
               (Render ''add_transaction.html'' errs, ledger) \<and> ''amount'' \<in> set errs)
   \<and> owns_category ledger 1 1
   \<and> add_transaction ledger 1 (POST (form_with_amount (Some 12))) =
     (Redirect ''transactions'',
      ledger\<lparr>tx_table := tx_table ledger @
        [\<lparr>t_id = 5, t_amount = 12, t_type = ''expense'', t_description = Some ''Lunch'',
          t_date = \<lparr>year = 2024, month = 4, day = 2\<rparr>, t_category_id = Some 1, t_user_id = 1\<rparr>]\<rparr>)"
proof -
  let ?dt = "\<lparr>year = 2024, month = 4, day = 2\<rparr>"
  have own: "owns_category ledger 1 1"
    by (simp add: owns_category_def ledger_def)
  have nid: "next_id (map t_id (tx_table ledger)) = 5"
    by (simp add: next_id_def ledger_def)
  have h0: "tf_amount (form_with_amount (Some 0)) = None
            \<or> tf_amount (form_with_amount (Some 0)) = Some 0"
    by (simp add: form_with_amount_def)
  have c0: "\<exists>errs. add_transaction ledger 1 (POST (form_with_amount (Some 0))) =
               (Render ''add_transaction.html'' errs, ledger) \<and> ''amount'' \<in> set errs"
    using add_transaction_amount [of "form_with_amount (Some 0)" ledger 1 GET 12 "''expense''" 1 ?dt]
      h0 by blast
  have h1: "tf_amount (form_with_amount (Some 12)) = Some 12 \<and> (12::real) \<noteq> 0
       \<and> tf_type (form_with_amount (Some 12)) = Some ''expense''
       \<and> ''expense'' \<in> {''expense'', ''income''}
       \<and> tf_category (form_with_amount (Some 12)) = Some 1 \<and> owns_category ledger 1 1
       \<and> tf_date (form_with_amount (Some 12)) = Some ?dt
       \<and> tf_csrf_ok (form_with_amount (Some 12))"
    by (simp add: form_with_amount_def own)
  have c1: "add_transaction ledger 1 (POST (form_with_amount (Some 12))) =
         (Redirect ''transactions'',
          ledger\<lparr>tx_table := tx_table ledger @
               [\<lparr>t_id = next_id (map t_id (tx_table ledger)), t_amount = 12, t_type = ''expense'',
                 t_description = tf_description (form_with_amount (Some 12)), t_date = ?dt,
                 t_category_id = category_or_none 1, t_user_id = 1\<rparr>]\<rparr>)"
    using add_transaction_amount [of "form_with_amount (Some 12)" ledger 1 GET 12 "''expense''" 1 ?dt]
      h1 by blast
  have d: "tf_description (form_with_amount (Some 12)) = Some ''Lunch''"
    "tf_amount (form_with_amount (Some 0)) = Some 0"
    by (simp_all add: form_with_amount_def)
  from c0 c1 own show ?thesis
    by (simp add: nid d category_or_none_def)
qed

section \<open>Ordering by date\<close>

lemma set_insort_desc: "set (insort_desc f x xs) = insert x (set xs)"
  by (induction xs) auto

lemma length_insort_desc: "length (insort_desc f x xs) = Suc (length xs)"
  by (induction xs) auto

lemma set_sort_desc: "set (sort_desc f xs) = set xs"
  by (induction xs) (auto simp: sort_desc_def set_insort_desc)

lemma length_sort_desc: "length (sort_desc f xs) = length xs"
  by (induction xs) (auto simp: sort_desc_def length_insort_desc)

lemma sort_desc_Cons: "sort_desc f (x # xs) = insort_desc f x (sort_desc f xs)"
  by (simp add: sort_desc_def)

lemma sort_desc_Nil: "sort_desc f [] = []"
  by (simp add: sort_desc_def)

lemma distinct_insort_desc: "distinct (insort_desc f x xs) \<longleftrightarrow> x \<notin> set xs \<and> distinct xs"
  by (induction xs) (auto simp: set_insort_desc)

lemma distinct_sort_desc: "distinct (sort_desc f xs) \<longleftrightarrow> distinct xs"
  by (induction xs) (auto simp: sort_desc_Cons sort_desc_Nil distinct_insort_desc set_sort_desc)

lemma sorted_insort_desc:
  "sorted_wrt (\<lambda>a b. f b \<le> f a) xs \<Longrightarrow> sorted_wrt (\<lambda>a b. f b \<le> f a) (insort_desc f x xs)"
  by (induction xs) (auto simp: set_insort_desc)

lemma sorted_sort_desc: "sorted_wrt (\<lambda>a b. f b \<le> f a) (sort_desc f xs)"
  by (induction xs) (auto simp: sort_desc_Cons sort_desc_Nil sorted_insort_desc)

lemma filter_insort_desc_other:
  "\<not> P x \<Longrightarrow> filter P (insort_desc f x xs) = filter P xs"
  by (induction xs) auto

lemma filter_insort_desc_key:
  "sorted_wrt (\<lambda>a b. f b \<le> f a) xs \<Longrightarrow>
   filter (\<lambda>y. f y = f x) (insort_desc f x xs) = x # filter (\<lambda>y. f y = f x) xs"
proof (induction xs)
  case Nil
  then show ?case by simp
next
  case (Cons y ys)
  show ?case
  proof (cases "f y \<le> f x")
    case True
    then show ?thesis by simp
  next
    case False
    then have "f y \<noteq> f x" by auto
    with False Cons show ?thesis by simp
  qed
qed

lemma sort_desc_stable: "filter (\<lambda>y. f y = k) (sort_desc f xs) = filter (\<lambda>y. f y = k) xs"
proof (induction xs)
  case Nil
  show ?case by (simp add: sort_desc_Nil)
next
  case (Cons x xs)
  show ?case
  proof (cases "f x = k")
    case True
    have "filter (\<lambda>y. f y = f x) (insort_desc f x (sort_desc f xs))
          = x # filter (\<lambda>y. f y = f x) (sort_desc f xs)"
      by (rule filter_insort_desc_key) (rule sorted_sort_desc)
    with True Cons show ?thesis by (simp add: sort_desc_Cons)
  next
    case False
    with Cons show ?thesis by (simp add: sort_desc_Cons filter_insort_desc_other)
  qed
qed


lemma set_order_by_date_desc: "set (order_by_date_desc ts) = set ts"
  by (simp add: order_by_date_desc_def set_sort_desc)

lemma length_order_by_date_desc: "length (order_by_date_desc ts) = length ts"
  by (simp add: order_by_date_desc_def length_sort_desc)

lemma distinct_order_by_date_desc: "distinct (order_by_date_desc ts) \<longleftrightarrow> distinct ts"
  by (simp add: order_by_date_desc_def distinct_sort_desc)

lemma date_key_le_iff: "date_key b \<le> date_key a \<longleftrightarrow> not_earlier a b"
  by (auto simp: date_key_def not_earlier_def less_eq_prod_def)

lemma date_descending_iff:
  "date_descending ts \<longleftrightarrow> sorted_wrt (\<lambda>a b. date_key (t_date b) \<le> date_key (t_date a)) ts"
  by (simp add: date_descending_def date_key_le_iff)

lemma date_descending_order_by: "date_descending (order_by_date_desc ts)"
  unfolding date_descending_iff order_by_date_desc_def by (rule sorted_sort_desc)

lemma order_by_date_desc_stable:
  "filter (\<lambda>t. date_key (t_date t) = k) (order_by_date_desc ts)
   = filter (\<lambda>t. date_key (t_date t) = k) ts"
  unfolding order_by_date_desc_def by (rule sort_desc_stable)

section \<open>Pages of the listing\<close>

lemma paginate_first:
  "paginate rows 1 n = Inr \<lparr>pg_items = take n rows, pg_total = length rows, pg_page = 1,
                            pg_per_page = n\<rparr>"
  by (simp add: paginate_def)

lemma paginate_below: "page < 1 \<Longrightarrow> paginate rows page n = Inl NotFound"
  by (simp add: paginate_def)

lemma paginate_beyond:
  "2 \<le> page \<Longrightarrow> length rows \<le> nat (page - 1) * n \<Longrightarrow> paginate rows page n = Inl NotFound"
  by (simp add: paginate_def)

lemma paginate_within:
  "1 \<le> page \<Longrightarrow> nat (page - 1) * n < length rows \<Longrightarrow> 0 < n \<Longrightarrow>
   paginate rows page n =
     Inr \<lparr>pg_items = take n (drop (nat (page - 1) * n) rows), pg_total = length rows,
          pg_page = page, pg_per_page = n\<rparr>"
  by (simp add: paginate_def)

text \<open>
  Claim C7, as the code has it. Pages count from 1: page 1 is always returned and holds
  the first 20 rows of the result (none when the result is empty), and a page \<open>p \<ge> 1\<close>
  that starts inside the result holds the 20 rows from offset \<open>20 (p - 1)\<close>. A page
  number from 2 on that lies beyond the last page is answered with \<open>NotFound\<close>, and so
  is a page number below 1.
\<close>

theorem page_beyond_last:
  "transactions d uid 1 q =
      Inr \<lparr>pg_items = take 20 (listing_query d uid q), pg_total = length (listing_query d uid q),
           pg_page = 1, pg_per_page = 20\<rparr>
   \<and> (1 \<le> page \<and> nat (page - 1) * 20 < length (listing_query d uid q) \<longrightarrow>
        transactions d uid page q =
          Inr \<lparr>pg_items = take 20 (drop (nat (page - 1) * 20) (listing_query d uid q)),
               pg_total = length (listing_query d uid q), pg_page = page, pg_per_page = 20\<rparr>)
   \<and> (2 \<le> page \<and> length (listing_query d uid q) \<le> nat (page - 1) * 20 \<longrightarrow>
        transactions d uid page q = Inl NotFound)
   \<and> (page < 1 \<longrightarrow> transactions d uid page q = Inl NotFound)"
  by (simp add: transactions_def paginate_first paginate_below paginate_beyond paginate_within)

lemma ledger_listing_all:
  "listing_query ledger 1 [] = [tx_table ledger ! 2, tx_table ledger ! 1, tx_table ledger ! 0]"
  by (simp add: listing_query_def filtered_rows_def strip_def user_transactions_def ledger_def
      order_by_date_desc_def sort_desc_def date_key_def)

text \<open>
  Claim C7 as stated fails: user 1 of \<open>ledger\<close> has three transactions, so one page, and
  asking for page 2 gives \<open>NotFound\<close>, not an empty page.
\<close>

theorem page_two_of_one_not_found: "transactions ledger 1 2 [] = Inl NotFound"
  by (simp add: transactions_def paginate_def ledger_listing_all)

theorem page_beyond_last_witness:
  "length (listing_query ledger 1 []) = 3
   \<and> transactions ledger 1 1 [] =
       Inr \<lparr>pg_items = [tx_table ledger ! 2, tx_table ledger ! 1, tx_table ledger ! 0],
            pg_total = 3, pg_page = 1, pg_per_page = 20\<rparr>
   \<and> transactions ledger 1 5 [] = Inl NotFound
   \<and> transactions ledger 1 0 [] = Inl NotFound"
  using page_beyond_last [of ledger 1 "[]" 1] page_beyond_last [of ledger 1 "[]" 5]
    page_beyond_last [of ledger 1 "[]" 0]
  by (simp add: ledger_listing_all)

section \<open>The monthly series\<close>

lemma sum_income_case:
  "sum_list (map income_case ts) = sum_list (map t_amount (filter (\<lambda>t. t_type t = ''income'') ts))"
  by (induction ts) (simp_all add: income_case_def)

lemma sum_expense_case:
  "sum_list (map expense_case ts) = sum_list (map t_amount (filter (\<lambda>t. t_type t = ''expense'') ts))"
  by (induction ts) (simp_all add: expense_case_def)

lemma periods_api_summary:
  "map period (api_summary d uid)
   = sort (remdups (map (\<lambda>t. strftime_ym (t_date t)) (user_transactions d uid)))"
  by (simp add: api_summary_def Let_def user_transactions_def o_def)

lemma strftime_ym_truncates: "strftime_ym dt = take 7 (isoformat dt)"
  by (simp add: strftime_ym_def isoformat_def pad4_def pad2_def)

text \<open>
  Claim C3. For every user, the periods of the monthly series are in strictly ascending
  order, so each occurs once, and they are exactly the \<open>YYYY-MM\<close> texts (the first seven
  characters of the ISO date) of the user's transactions; the income and expense of an
  entry are the sums of the amounts of that month's transactions of the type, 0 when
  there is none; a month without a transaction of the user has no entry.
\<close>

theorem monthly_series:
  "sorted_wrt (<) (map period (api_summary d uid))
   \<and> set (map period (api_summary d uid))
       = (\<lambda>t. strftime_ym (t_date t)) ` set (user_transactions d uid)
   \<and> (\<forall>t \<in> set (user_transactions d uid). strftime_ym (t_date t) = take 7 (isoformat (t_date t)))
   \<and> (\<forall>r \<in> set (api_summary d uid).
         income r = sum_list (month_amounts d uid (period r) ''income'')
         \<and> expense r = sum_list (month_amounts d uid (period r) ''expense'')
         \<and> (month_amounts d uid (period r) ''income'' = [] \<longrightarrow> income r = 0)
         \<and> (month_amounts d uid (period r) ''expense'' = [] \<longrightarrow> expense r = 0))
   \<and> (\<forall>ym. ym \<notin> (\<lambda>t. strftime_ym (t_date t)) ` set (user_transactions d uid) \<longrightarrow>
         ym \<notin> set (map period (api_summary d uid)))"
proof -
  let ?ym = "\<lambda>t. strftime_ym (t_date t)"
  let ?txs = "user_transactions d uid"
  have per: "map period (api_summary d uid) = sort (remdups (map ?ym ?txs))"
    by (rule periods_api_summary)
  have asc: "sorted_wrt (<) (map period (api_summary d uid))"
    unfolding per by (simp add: strict_sorted_iff)
  have months: "set (map period (api_summary d uid)) = ?ym ` set ?txs"
    unfolding per by simp
  have sums: "income r = sum_list (month_amounts d uid (period r) ''income'')
         \<and> expense r = sum_list (month_amounts d uid (period r) ''expense'')"
    if "r \<in> set (api_summary d uid)" for r
  proof -
    from that obtain k where
      r: "r = \<lparr>period = k,
               income = or0 (sql_sum (map income_case (filter (\<lambda>t. ?ym t = k) ?txs))),
               expense = or0 (sql_sum (map expense_case (filter (\<lambda>t. ?ym t = k) ?txs)))\<rparr>"
      by (auto simp: api_summary_def Let_def user_transactions_def)
    show ?thesis
      by (simp add: r or0_sql_sum sum_income_case sum_expense_case month_amounts_def)
  qed
  from asc months sums show ?thesis
    by (simp add: strftime_ym_truncates)
qed

theorem monthly_series_witness:
  "api_summary ledger 1 =
     [\<lparr>period = ''2024-01'', income = 100, expense = 30\<rparr>,
      \<lparr>period = ''2024-03'', income = 50, expense = 0\<rparr>]
   \<and> month_amounts ledger 1 ''2024-03'' ''expense'' = []
   \<and> ''2024-02'' \<notin> (\<lambda>t. strftime_ym (t_date t)) ` set (user_transactions ledger 1)
   \<and> ''2024-02'' \<notin> set (map period (api_summary ledger 1))
   \<and> expense (api_summary ledger 1 ! 1) = 0"
proof -
  have s: "api_summary ledger 1 =
     [\<lparr>period = ''2024-01'', income = 100, expense = 30\<rparr>,
      \<lparr>period = ''2024-03'', income = 50, expense = 0\<rparr>]"
    by (simp add: api_summary_def Let_def ledger_def or0_sql_sum income_case_def
        expense_case_def strftime_ym_def pad4_def pad2_def digit_def)
  have m: "month_amounts ledger 1 ''2024-03'' ''expense'' = []"
    by (simp add: month_amounts_def user_transactions_def ledger_def strftime_ym_def pad4_def
        pad2_def digit_def)
  have feb: "''2024-02'' \<notin> (\<lambda>t. strftime_ym (t_date t)) ` set (user_transactions ledger 1)"
    by (simp add: user_transactions_def ledger_def strftime_ym_def pad4_def pad2_def digit_def)
  have mem: "api_summary ledger 1 ! 1 \<in> set (api_summary ledger 1)"
    by (simp add: s)
  have p: "period (api_summary ledger 1 ! 1) = ''2024-03''"
    by (simp add: s)
  note T = monthly_series [of ledger 1]
  from T feb have c1: "''2024-02'' \<notin> set (map period (api_summary ledger 1))"
    by blast
  from T mem have "month_amounts ledger 1 (period (api_summary ledger 1 ! 1)) ''expense'' = []
       \<longrightarrow> expense (api_summary ledger 1 ! 1) = 0"
    by blast
  with m p have c2: "expense (api_summary ledger 1 ! 1) = 0" by simp
  from s m feb c1 c2 show ?thesis by blast
qed

section \<open>Deleting a category that is in use\<close>

lemma find_owned_cat:
  "owns_category d uid i \<Longrightarrow>
   \<exists>c. find (\<lambda>c. c_id c = i \<and> c_user_id c = uid) (cat_table d) = Some c
       \<and> c \<in> set (cat_table d) \<and> c_id c = i \<and> c_user_id c = uid"
proof -
  assume "owns_category d uid i"
  then have "find (\<lambda>c. c_id c = i \<and> c_user_id c = uid) (cat_table d) \<noteq> None"
    by (auto simp: owns_category_def list_ex_iff find_None_iff)
  then obtain c where c: "find (\<lambda>c. c_id c = i \<and> c_user_id c = uid) (cat_table d) = Some c"
    by blast
  then have "c \<in> set (cat_table d) \<and> c_id c = i \<and> c_user_id c = uid"
    by (auto simp: find_Some_iff)
  with c show ?thesis by blast
qed

lemma find_owned_tx:
  "owns_transaction d uid i \<Longrightarrow>
   \<exists>t. find (\<lambda>t. t_id t = i \<and> t_user_id t = uid) (tx_table d) = Some t
       \<and> t \<in> set (tx_table d) \<and> t_id t = i \<and> t_user_id t = uid"
proof -
  assume "owns_transaction d uid i"
  then have "find (\<lambda>t. t_id t = i \<and> t_user_id t = uid) (tx_table d) \<noteq> None"
    by (auto simp: owns_transaction_def list_ex_iff find_None_iff)
  then obtain t where t: "find (\<lambda>t. t_id t = i \<and> t_user_id t = uid) (tx_table d) = Some t"
    by blast
  then have "t \<in> set (tx_table d) \<and> t_id t = i \<and> t_user_id t = uid"
    by (auto simp: find_Some_iff)
  with t show ?thesis by blast
qed

lemma delete_category_owned:
  assumes "owns_category d uid k"
  shows "delete_category d uid k =
           (Inr (Redirect ''add_transaction''),
            d\<lparr>tx_table := map (clear_category k) (tx_table d),
              cat_table := filter (\<lambda>x. c_id x \<noteq> k) (cat_table d)\<rparr>)"
proof -
  from find_owned_cat [OF assms] obtain c where
    "find (\<lambda>c. c_id c = k \<and> c_user_id c = uid) (cat_table d) = Some c" "c_id c = k"
    by blast
  then show ?thesis
    by (simp add: delete_category_def clear_category_def [abs_def])
qed

text \<open>
  Claim C9. When the caller owns the category, deleting it succeeds whether or not
  transactions refer to it: the view redirects and the category's row is gone. No
  transaction is deleted: the table keeps its rows and their ids, every transaction that
  referred to the category is the same but for a NULL reference, which reads as no
  category (also in the export, as the empty string), and the others are unchanged.
\<close>

theorem delete_referenced_category:
  "owns_category d uid k \<longrightarrow>
     fst (delete_category d uid k) = Inr (Redirect ''add_transaction'')
     \<and> \<not> list_ex (\<lambda>c. c_id c = k) (cat_table (snd (delete_category d uid k)))
     \<and> tx_table (snd (delete_category d uid k)) = map (clear_category k) (tx_table d)
     \<and> length (tx_table (snd (delete_category d uid k))) = length (tx_table d)
     \<and> map t_id (tx_table (snd (delete_category d uid k))) = map t_id (tx_table d)
     \<and> (\<forall>t \<in> set (tx_table d). t_category_id t = Some k \<longrightarrow>
           t\<lparr>t_category_id := None\<rparr> \<in> set (tx_table (snd (delete_category d uid k)))
           \<and> tx_category (snd (delete_category d uid k)) (t\<lparr>t_category_id := None\<rparr>) = None
           \<and> csv_row (snd (delete_category d uid k)) (t\<lparr>t_category_id := None\<rparr>) ! 3 = Str [])
     \<and> (\<forall>t \<in> set (tx_table d). t_category_id t \<noteq> Some k \<longrightarrow>
           t \<in> set (tx_table (snd (delete_category d uid k))))
     \<and> (\<forall>t' \<in> set (tx_table (snd (delete_category d uid k))). t_category_id t' \<noteq> Some k)"
proof
  assume own: "owns_category d uid k"
  let ?d' = "d\<lparr>tx_table := map (clear_category k) (tx_table d),
               cat_table := filter (\<lambda>x. c_id x \<noteq> k) (cat_table d)\<rparr>"
  have del: "delete_category d uid k = (Inr (Redirect ''add_transaction''), ?d')"
    using own by (rule delete_category_owned)
  have ids: "map t_id (map (clear_category k) (tx_table d)) = map t_id (tx_table d)"
    by (simp add: clear_category_def o_def)
  have gone: "\<not> list_ex (\<lambda>c. c_id c = k) (cat_table ?d')"
    by (simp add: list_ex_iff)
  have cleared: "t\<lparr>t_category_id := None\<rparr> \<in> set (tx_table ?d')
           \<and> tx_category ?d' (t\<lparr>t_category_id := None\<rparr>) = None
           \<and> csv_row ?d' (t\<lparr>t_category_id := None\<rparr>) ! 3 = Str []"
    if "t \<in> set (tx_table d)" "t_category_id t = Some k" for t
  proof -
    from that have "clear_category k t = t\<lparr>t_category_id := None\<rparr>"
      by (simp add: clear_category_def)
    with that(1) have "t\<lparr>t_category_id := None\<rparr> \<in> clear_category k ` set (tx_table d)"
      by (metis imageI)
    then show ?thesis by (simp add: tx_category_def csv_row_def)
  qed
  have kept: "t \<in> set (tx_table ?d')" if "t \<in> set (tx_table d)" "t_category_id t \<noteq> Some k" for t
  proof -
    from that have "clear_category k t = t" by (simp add: clear_category_def)
    with that(1) have "t \<in> clear_category k ` set (tx_table d)" by (metis imageI)
    then show ?thesis by simp
  qed
  have noref: "t_category_id t' \<noteq> Some k" if "t' \<in> set (tx_table ?d')" for t'
    using that by (auto simp: clear_category_def split: if_splits)
  show "fst (delete_category d uid k) = Inr (Redirect ''add_transaction'')
     \<and> \<not> list_ex (\<lambda>c. c_id c = k) (cat_table (snd (delete_category d uid k)))
     \<and> tx_table (snd (delete_category d uid k)) = map (clear_category k) (tx_table d)
     \<and> length (tx_table (snd (delete_category d uid k))) = length (tx_table d)
     \<and> map t_id (tx_table (snd (delete_category d uid k))) = map t_id (tx_table d)
     \<and> (\<forall>t \<in> set (tx_table d). t_category_id t = Some k \<longrightarrow>
           t\<lparr>t_category_id := None\<rparr> \<in> set (tx_table (snd (delete_category d uid k)))
           \<and> tx_category (snd (delete_category d uid k)) (t\<lparr>t_category_id := None\<rparr>) = None
           \<and> csv_row (snd (delete_category d uid k)) (t\<lparr>t_category_id := None\<rparr>) ! 3 = Str [])
     \<and> (\<forall>t \<in> set (tx_table d). t_category_id t \<noteq> Some k \<longrightarrow>
           t \<in> set (tx_table (snd (delete_category d uid k))))
     \<and> (\<forall>t' \<in> set (tx_table (snd (delete_category d uid k))). t_category_id t' \<noteq> Some k)"
    unfolding del snd_conv fst_conv
    using ids gone cleared kept noref by (simp del: set_map)
qed

theorem delete_referenced_category_witness:
  "owns_category ledger 1 2
   \<and> tx_table ledger ! 0 \<in> set (tx_table ledger)
   \<and> t_category_id (tx_table ledger ! 0) = Some 2
   \<and> fst (delete_category ledger 1 2) = Inr (Redirect ''add_transaction'')
   \<and> map t_id (tx_table (snd (delete_category ledger 1 2))) = [1, 2, 3, 4]
   \<and> (tx_table ledger ! 0)\<lparr>t_category_id := None\<rparr> \<in> set (tx_table (snd (delete_category ledger 1 2)))
   \<and> tx_category (snd (delete_category ledger 1 2)) ((tx_table ledger ! 0)\<lparr>t_category_id := None\<rparr>)
       = None"
proof -
  have own: "owns_category ledger 1 2"
    by (simp add: owns_category_def ledger_def)
  have mem: "tx_table ledger ! 0 \<in> set (tx_table ledger)"
    "t_category_id (tx_table ledger ! 0) = Some 2"
    by (simp_all add: ledger_def)
  have ids: "map t_id (tx_table ledger) = [1, 2, 3, 4]"
    by (simp add: ledger_def)
  note T = delete_referenced_category [of ledger 1 2]
  from T own have r: "fst (delete_category ledger 1 2) = Inr (Redirect ''add_transaction'')"
    by blast
  from T own have i: "map t_id (tx_table (snd (delete_category ledger 1 2))) = map t_id (tx_table ledger)"
    by blast
  from T own mem have c:
    "(tx_table ledger ! 0)\<lparr>t_category_id := None\<rparr> \<in> set (tx_table (snd (delete_category ledger 1 2)))
     \<and> tx_category (snd (delete_category ledger 1 2)) ((tx_table ledger ! 0)\<lparr>t_category_id := None\<rparr>)
       = None"
    by blast
  from own mem r i c show ?thesis by (simp add: ids)
qed

section \<open>The rows of the listing\<close>

lemma filter_key_unique:
  "distinct (map f xs) \<Longrightarrow>
   filter (\<lambda>x. k = f x) xs = (case find (\<lambda>x. f x = k) xs of None \<Rightarrow> [] | Some c \<Rightarrow> [c])"
proof (induction xs)
  case Nil
  then show ?case by simp
next
  case (Cons x xs)
  show ?case
  proof (cases "f x = k")
    case True
    with Cons.prems have "k \<notin> f ` set xs" by auto
    then have "filter (\<lambda>y. k = f y) xs = []" by (auto simp: filter_empty_conv)
    with True show ?thesis by simp
  next
    case False
    with Cons show ?thesis by auto
  qed
qed

lemma join_rows_of:
  assumes "distinct (map c_id cs)"
  shows "(case filter (\<lambda>c. t_category_id t = Some (c_id c)) cs of
            [] \<Rightarrow> [(t, None)]
          | m # ms \<Rightarrow> map (\<lambda>c. (t, Some c)) (m # ms))
         = [(t, case t_category_id t of None \<Rightarrow> None | Some k \<Rightarrow> find (\<lambda>c. c_id c = k) cs)]"
proof (cases "t_category_id t")
  case None
  then show ?thesis by simp
next
  case (Some k)
  have "filter (\<lambda>c. t_category_id t = Some (c_id c)) cs = filter (\<lambda>c. k = c_id c) cs"
    using Some by simp
  also have "\<dots> = (case find (\<lambda>c. c_id c = k) cs of None \<Rightarrow> [] | Some c \<Rightarrow> [c])"
    using assms by (rule filter_key_unique)
  finally show ?thesis using Some by (simp split: option.splits)
qed

lemma outer_join_unique:
  assumes "distinct (map c_id (cat_table d))"
  shows "outer_join_category (cat_table d) ts = map (\<lambda>t. (t, tx_category d t)) ts"
  by (induction ts) (simp_all add: outer_join_category_def tx_category_def join_rows_of [OF assms])

lemma filtered_rows_unique:
  assumes "db_keys_ok d"
  shows "filtered_rows d uid q =
           (if strip q \<noteq> []
            then filter (\<lambda>t. search_filter (strip q) (t, tx_category d t) = Some True)
                        (user_transactions d uid)
            else user_transactions d uid)"
proof -
  from assms have "distinct (map c_id (cat_table d))" by (simp add: db_keys_ok_def)
  then show ?thesis
    by (simp add: filtered_rows_def Let_def outer_join_unique filter_map o_def)
qed

lemma distinct_user_transactions: "db_keys_ok d \<Longrightarrow> distinct (user_transactions d uid)"
  by (simp add: db_keys_ok_def user_transactions_def distinct_map)

lemma distinct_filtered_rows: "db_keys_ok d \<Longrightarrow> distinct (filtered_rows d uid q)"
  by (simp add: filtered_rows_unique distinct_user_transactions)

lemma distinct_listing_query: "db_keys_ok d \<Longrightarrow> distinct (listing_query d uid q)"
  by (simp add: listing_query_def distinct_order_by_date_desc distinct_filtered_rows)

section \<open>Order of the listing and its pages\<close>

lemma mset_insort_desc: "mset (insort_desc f x xs) = add_mset x (mset xs)"
  by (induction xs) simp_all

lemma mset_sort_desc: "mset (sort_desc f xs) = mset xs"
  by (induction xs) (simp_all add: sort_desc_Nil sort_desc_Cons mset_insort_desc)

lemma order_by_date_desc_allowed: "date_desc_order ts (order_by_date_desc ts)"
  unfolding date_desc_order_def order_by_date_desc_def
  by (simp add: mset_sort_desc sorted_sort_desc)




















section \<open>The search filter\<close>

lemma pattern_compare_percent_only: "pattern_compare ''%'' s"
  by (induction s) auto

lemma pattern_compare_literal:
  "CHR ''%'' \<notin> set q \<Longrightarrow> CHR ''_'' \<notin> set q \<Longrightarrow>
   pattern_compare (q @ rest) s \<longleftrightarrow> (\<exists>s'. s = q @ s' \<and> pattern_compare rest s')"
proof (induction q arbitrary: s)
  case Nil
  then show ?case by simp
next
  case (Cons c q)
  then have wf: "CHR ''%'' \<notin> set q" "CHR ''_'' \<notin> set q" and c: "c \<noteq> CHR ''%''" "c \<noteq> CHR ''_''"
    by auto
  show ?case
  proof (cases s)
    case Nil
    with c show ?thesis by simp
  next
    case (Cons a s1)
    with c Cons.IH [OF wf, of s1] show ?thesis by auto
  qed
qed

lemma pattern_compare_percent:
  "pattern_compare (CHR ''%'' # ps) s \<longleftrightarrow> (\<exists>a b. s = a @ b \<and> pattern_compare ps b)"
proof (induction s)
  case Nil
  then show ?case by simp
next
  case (Cons c cs)
  show ?case
  proof
    assume "pattern_compare (CHR ''%'' # ps) (c # cs)"
    then consider "pattern_compare ps (c # cs)" | "pattern_compare (CHR ''%'' # ps) cs" by auto
    then show "\<exists>a b. c # cs = a @ b \<and> pattern_compare ps b"
    proof cases
      case 1
      then have "c # cs = [] @ (c # cs) \<and> pattern_compare ps (c # cs)" by simp
      then show ?thesis by blast
    next
      case 2
      with Cons obtain a b where "cs = a @ b" "pattern_compare ps b" by auto
      then have "c # cs = (c # a) @ b \<and> pattern_compare ps b" by simp
      then show ?thesis by blast
    qed
  next
    assume "\<exists>a b. c # cs = a @ b \<and> pattern_compare ps b"
    then obtain a b where ab: "c # cs = a @ b" "pattern_compare ps b" by auto
    show "pattern_compare (CHR ''%'' # ps) (c # cs)"
    proof (cases a)
      case Nil
      with ab show ?thesis by auto
    next
      case (Cons a1 a')
      with ab have "cs = a' @ b" by simp
      with ab Cons.IH have "pattern_compare (CHR ''%'' # ps) cs" by auto
      then show ?thesis by simp
    qed
  qed
qed

lemma pattern_compare_contains:
  assumes "CHR ''%'' \<notin> set q" "CHR ''_'' \<notin> set q"
  shows "pattern_compare (''%'' @ q @ ''%'') s \<longleftrightarrow> sublist q s"
proof -
  have "pattern_compare (''%'' @ q @ ''%'') s
        \<longleftrightarrow> (\<exists>a b. s = a @ b \<and> pattern_compare (q @ ''%'') b)"
    using pattern_compare_percent [of "q @ ''%''" s] by simp
  also have "\<dots> \<longleftrightarrow> (\<exists>a b. s = a @ b \<and> (\<exists>s'. b = q @ s'))"
    using pattern_compare_literal [OF assms, of "''%''"] pattern_compare_percent_only by simp
  also have "\<dots> \<longleftrightarrow> sublist q s"
    by (auto simp: sublist_def)
  finally show ?thesis .
qed

lemma lower_char_percent: "lower_char c = CHR ''%'' \<longleftrightarrow> c = CHR ''%''"
  by (auto simp: lower_char_def split: if_splits)

lemma lower_char_underscore: "lower_char c = CHR ''_'' \<longleftrightarrow> c = CHR ''_''"
  by (auto simp: lower_char_def split: if_splits)

lemma lower_char_nul: "lower_char c = CHR 0x00 \<longleftrightarrow> c = CHR 0x00"
  by (auto simp: lower_char_def split: if_splits)

lemma sql_lower_keeps:
  assumes "\<And>c. lower_char c = x \<longleftrightarrow> c = x"
  shows "x \<in> set (sql_lower s) \<longleftrightarrow> x \<in> set s"
proof (induction s)
  case Nil
  show ?case by (simp add: sql_lower_def)
next
  case (Cons c s)
  have "sql_lower (c # s) = lower_char c # sql_lower s" by (simp add: sql_lower_def)
  moreover have "x = lower_char c \<longleftrightarrow> x = c" using assms [of c] by auto
  ultimately show ?case using Cons by simp
qed

lemma c_string_whole: "CHR 0x00 \<notin> set s \<Longrightarrow> c_string s = s"
  by (auto simp: c_string_def takeWhile_eq_all_conv)

lemma sql_lower_pattern: "sql_lower (''%'' @ q @ ''%'') = ''%'' @ sql_lower q @ ''%''"
  by (simp add: sql_lower_def lower_char_def)

text \<open>
  The letters: \<open>lower_char\<close> sends two characters to the same one exactly when they are
  the same letter. It is shown for any table of capitals and small forms.
\<close>

lemma fold_table:
  assumes du: "distinct us" and dl: "distinct ls" and len: "length us = length ls"
    and disj: "set us \<inter> set ls = {}"
  shows "(case map_of (zip us ls) a of None \<Rightarrow> a | Some l \<Rightarrow> l)
           = (case map_of (zip us ls) b of None \<Rightarrow> b | Some l \<Rightarrow> l)
         \<longleftrightarrow> a = b \<or> (a, b) \<in> set (zip us ls) \<or> (b, a) \<in> set (zip us ls)"
proof -
  let ?z = "zip us ls"
  have f: "map fst ?z = us" and s: "map snd ?z = ls" using len by simp_all
  have some: "map_of ?z x = Some y \<longleftrightarrow> (x, y) \<in> set ?z" for x y
    using du f by (simp add: map_of_eq_Some_iff)
  have none: "map_of ?z x = None \<longleftrightarrow> x \<notin> set us" for x
    using f by (metis map_of_eq_None_iff set_map)
  have mem: "x \<in> set us \<and> y \<in> set ls" if "(x, y) \<in> set ?z" for x y
    using that by (auto dest: set_zip_leftD set_zip_rightD)
  have inj: "x = x'" if "(x, y) \<in> set ?z" "(x', y) \<in> set ?z" for x x' y
  proof -
    from dl s have "inj_on snd (set ?z)" by (metis distinct_map)
    from inj_onD [OF this _ that] show ?thesis by simp
  qed
  have func: "y = y'" if "(x, y) \<in> set ?z" "(x, y') \<in> set ?z" for x y y'
    using that some by (metis option.inject)
  show ?thesis
  proof (cases "map_of ?z a")
    case None
    note na = None
    then have a: "a \<notin> set us" by (simp add: none)
    show ?thesis
    proof (cases "map_of ?z b")
      case None
      then have "b \<notin> set us" by (simp add: none)
      with a na None mem show ?thesis by auto
    next
      case (Some lb)
      then have zb: "(b, lb) \<in> set ?z" by (simp add: some)
      with mem have "b \<in> set us" by blast
      with a have "a \<noteq> b" by auto
      moreover have "(a, b) \<notin> set ?z" using a mem by blast
      moreover have "a = lb \<longleftrightarrow> (b, a) \<in> set ?z" using zb func by blast
      ultimately show ?thesis using na Some by simp
    qed
  next
    case (Some la)
    then have za: "(a, la) \<in> set ?z" by (simp add: some)
    with mem have au: "a \<in> set us" by blast
    show ?thesis
    proof (cases "map_of ?z b")
      case None
      then have b: "b \<notin> set us" by (simp add: none)
      with au have "a \<noteq> b" by auto
      moreover have "(b, a) \<notin> set ?z" using b mem by blast
      moreover have "la = b \<longleftrightarrow> (a, b) \<in> set ?z" using za func by blast
      ultimately show ?thesis using Some None by simp
    next
      case (Some lb)
      note sb = Some
      then have zb: "(b, lb) \<in> set ?z" by (simp add: some)
      with mem have bu: "b \<in> set us" by blast
      have "(a, b) \<notin> set ?z" using bu mem disj by blast
      moreover have "(b, a) \<notin> set ?z" using au mem disj by blast
      moreover have "la = lb \<longleftrightarrow> a = b" using za zb inj func by blast
      ultimately show ?thesis using \<open>map_of ?z a = Some la\<close> sb by simp
    qed
  qed
qed

lemma lower_char_same_letter: "lower_char a = lower_char b \<longleftrightarrow> same_letter a b"
  unfolding lower_char_def same_letter_def letter_pairs_def
  by (rule fold_table) simp_all

lemma prefix_lower: "prefix (sql_lower q) (sql_lower s) \<longleftrightarrow> ci_prefix q s"
  by (induction q s rule: ci_prefix.induct) (simp_all add: sql_lower_def lower_char_same_letter)

lemma sublist_lower: "sublist (sql_lower q) (sql_lower s) \<longleftrightarrow> ci_contains q s"
proof (induction s)
  case Nil
  show ?case by (simp add: sql_lower_def)
next
  case (Cons c s)
  have "sql_lower (c # s) = lower_char c # sql_lower s" by (simp add: sql_lower_def)
  then have "sublist (sql_lower q) (sql_lower (c # s))
             \<longleftrightarrow> prefix (sql_lower q) (sql_lower (c # s)) \<or> sublist (sql_lower q) (sql_lower s)"
    by (simp add: sublist_Cons_right)
  with Cons show ?case by (simp add: prefix_lower)
qed

lemma ilike_contains:
  assumes "plain_term q" "nul_free s"
  shows "ilike (Some s) (''%'' @ q @ ''%'') = Some (ci_contains q s)"
proof -
  from assms(1) have w: "CHR ''%'' \<notin> set (sql_lower q)" "CHR ''_'' \<notin> set (sql_lower q)"
    and n: "CHR 0x00 \<notin> set (sql_lower q)"
    by (simp_all add: plain_term_def sql_lower_keeps lower_char_percent lower_char_underscore
        lower_char_nul)
  from n have "CHR 0x00 \<notin> set (''%'' @ sql_lower q @ ''%'')" by simp
  then have p: "c_string (''%'' @ sql_lower q @ ''%'') = ''%'' @ sql_lower q @ ''%''"
    by (rule c_string_whole)
  from assms(2) have "CHR 0x00 \<notin> set (sql_lower s)"
    by (simp add: nul_free_def sql_lower_keeps lower_char_nul)
  then have t: "c_string (sql_lower s) = sql_lower s" by (rule c_string_whole)
  have "like_match (sql_lower (''%'' @ q @ ''%'')) (sql_lower s)
        \<longleftrightarrow> pattern_compare (''%'' @ sql_lower q @ ''%'') (sql_lower s)"
    by (simp only: like_match_def sql_lower_pattern p t)
  also have "\<dots> \<longleftrightarrow> sublist (sql_lower q) (sql_lower s)"
    using w by (rule pattern_compare_contains)
  also have "\<dots> \<longleftrightarrow> ci_contains q s" by (rule sublist_lower)
  finally show ?thesis by (simp add: ilike_def del: append.simps)
qed

lemma ilike_null: "ilike None pat = None"
  by (simp add: ilike_def)

lemma sql_or_true: "sql_or a b = Some True \<longleftrightarrow> a = Some True \<or> b = Some True"
  by (simp add: sql_or_def)

lemma search_filter_matches:
  assumes q: "plain_term q" and tx: "texts_nul_free d" and t: "t \<in> set (tx_table d)"
  shows "search_filter q (t, tx_category d t) = Some True \<longleftrightarrow> tx_matches d q t"
proof -
  from tx t have nd: "\<And>s. t_description t = Some s \<Longrightarrow> nul_free s" and nt: "nul_free (t_type t)"
    by (auto simp: texts_nul_free_def list_all_iff split: option.splits)
  have nc: "nul_free (c_name c)" if "tx_category d t = Some c" for c
  proof -
    from that have "c \<in> set (cat_table d)"
      by (auto simp: tx_category_def find_Some_iff split: option.splits)
    with tx show ?thesis by (simp add: texts_nul_free_def list_all_iff)
  qed
  have desc: "ilike (t_description t) (''%'' @ q @ ''%'') = Some True
              \<longleftrightarrow> (case t_description t of None \<Rightarrow> False | Some s \<Rightarrow> ci_contains q s)"
    by (cases "t_description t")
       (simp_all add: ilike_null ilike_contains [OF q] nd del: append.simps)
  have cat: "ilike (map_option c_name (tx_category d t)) (''%'' @ q @ ''%'') = Some True
              \<longleftrightarrow> (case tx_category d t of None \<Rightarrow> False | Some c \<Rightarrow> ci_contains q (c_name c))"
    by (cases "tx_category d t")
       (simp_all add: ilike_null ilike_contains [OF q] nc del: append.simps)
  have ty: "ilike (Some (t_type t)) (''%'' @ q @ ''%'') = Some True \<longleftrightarrow> ci_contains q (t_type t)"
    by (simp add: ilike_contains [OF q nt] del: append.simps)
  show ?thesis
    unfolding search_filter_def Let_def fst_conv snd_conv sql_or_true desc cat ty tx_matches_def
    by blast
qed

lemma filtered_rows_matches:
  assumes "db_keys_ok d" "strip q \<noteq> []" "plain_term (strip q)" "texts_nul_free d"
  shows "filtered_rows d uid q = filter (tx_matches d (strip q)) (user_transactions d uid)"
proof -
  have "filter (\<lambda>t. search_filter (strip q) (t, tx_category d t) = Some True)
               (user_transactions d uid)
        = filter (tx_matches d (strip q)) (user_transactions d uid)"
    by (rule filter_cong [OF refl])
       (simp add: user_transactions_def search_filter_matches [OF assms(3,4)])
  with assms(1,2) show ?thesis by (simp add: filtered_rows_unique)
qed

text \<open>
  Claim C5, as the code has it. The view strips the filter string. When the stripped
  string \<open>s\<close> is not empty and holds none of \<open>%\<close>, \<open>_\<close> and U+0000, no stored text holds
  U+0000, and primary keys are unique, the result is exactly the caller's transactions
  for which \<open>s\<close> is a case-insensitive substring of the description, of the type, or of
  the name of the referenced category, each once and in order of date; a transaction
  without a category reference is in the result only through its description or type;
  every page reports the number of matching transactions as its total, and when nothing
  matches page 1 is empty with total 0. A filter string that strips to nothing applies
  no filter.
\<close>

theorem listing_filter:
  "(db_keys_ok d \<and> strip q \<noteq> [] \<and> plain_term (strip q) \<and> texts_nul_free d \<longrightarrow>
      filtered_rows d uid q = filter (tx_matches d (strip q)) (user_transactions d uid)
      \<and> listing_query d uid q
        = order_by_date_desc (filter (tx_matches d (strip q)) (user_transactions d uid))
      \<and> set (listing_query d uid q)
          = {t \<in> set (tx_table d). t_user_id t = uid \<and> tx_matches d (strip q) t}
      \<and> distinct (listing_query d uid q)
      \<and> (\<forall>t \<in> set (listing_query d uid q). t_category_id t = None \<longrightarrow>
            (case t_description t of None \<Rightarrow> False | Some s \<Rightarrow> ci_contains (strip q) s)
            \<or> ci_contains (strip q) (t_type t))
      \<and> (\<forall>p. transactions d uid page q = Inr p \<longrightarrow>
            pg_total p = length (filter (tx_matches d (strip q)) (user_transactions d uid))
            \<and> pg_items p = take 20 (drop (nat (page - 1) * 20) (listing_query d uid q)))
      \<and> (filter (tx_matches d (strip q)) (user_transactions d uid) = [] \<longrightarrow>
            transactions d uid 1 q
              = Inr \<lparr>pg_items = [], pg_total = 0, pg_page = 1, pg_per_page = 20\<rparr>))
   \<and> (strip q = [] \<longrightarrow> listing_query d uid q = order_by_date_desc (user_transactions d uid))"
proof (intro conjI impI)
  assume a: "db_keys_ok d \<and> strip q \<noteq> [] \<and> plain_term (strip q) \<and> texts_nul_free d"
  let ?M = "filter (tx_matches d (strip q)) (user_transactions d uid)"
  from a show rows: "filtered_rows d uid q = ?M" by (simp add: filtered_rows_matches)
  then show L: "listing_query d uid q = order_by_date_desc ?M"
    by (simp add: listing_query_def)
  show S: "set (listing_query d uid q)
          = {t \<in> set (tx_table d). t_user_id t = uid \<and> tx_matches d (strip q) t}"
    by (auto simp: L set_order_by_date_desc user_transactions_def)
  from a show "distinct (listing_query d uid q)" by (simp add: distinct_listing_query)
  show "\<forall>t \<in> set (listing_query d uid q). t_category_id t = None \<longrightarrow>
            (case t_description t of None \<Rightarrow> False | Some s \<Rightarrow> ci_contains (strip q) s)
            \<or> ci_contains (strip q) (t_type t)"
  proof (intro ballI impI)
    fix t assume "t \<in> set (listing_query d uid q)" and n: "t_category_id t = None"
    then have "tx_matches d (strip q) t" by (simp add: S)
    moreover from n have "tx_category d t = None" by (simp add: tx_category_def)
    ultimately show "(case t_description t of None \<Rightarrow> False | Some s \<Rightarrow> ci_contains (strip q) s)
            \<or> ci_contains (strip q) (t_type t)"
      by (simp add: tx_matches_def)
  qed
  have len: "length (listing_query d uid q) = length ?M"
    by (simp add: L length_order_by_date_desc)
  show "\<forall>p. transactions d uid page q = Inr p \<longrightarrow>
            pg_total p = length ?M
            \<and> pg_items p = take 20 (drop (nat (page - 1) * 20) (listing_query d uid q))"
    by (auto simp: transactions_def paginate_def Let_def len split: if_splits)
  show "transactions d uid 1 q
              = Inr \<lparr>pg_items = [], pg_total = 0, pg_page = 1, pg_per_page = 20\<rparr>"
    if "?M = []"
  proof -
    from that len have "listing_query d uid q = []" by simp
    then show ?thesis
      by (simp add: transactions_def paginate_first)
  qed
next
  assume "strip q = []"
  then show "listing_query d uid q = order_by_date_desc (user_transactions d uid)"
    by (simp add: listing_query_def filtered_rows_def)
qed

lemma ledger_keys: "db_keys_ok ledger"
  by (simp add: db_keys_ok_def ledger_def)

lemma ledger_texts: "texts_nul_free ledger"
  by (simp add: texts_nul_free_def nul_free_def ledger_def)

text \<open>
  A search term that is the character U+0000 makes the pattern end at once, so it is
  \<open>%\<close> and every row matches.
\<close>

lemma nul_term_lists_all:
  "map t_id (listing_query ledger 1 [CHR 0x00]) = [3, 2, 1]"
  by code_simp

lemma ledger_upper_term: "map t_id (listing_query ledger 1 ''GROCER'') = [2]"
  by code_simp

text \<open>
  Claim C5 as stated fails: the filter string of one space is not empty, it is not a
  substring of any field of the third transaction of \<open>ledger\<close>, and the listing returns
  that transaction.
\<close>

theorem blank_filter_lists_all:
  "transactions ledger 1 1 '' '' =
     Inr \<lparr>pg_items = [tx_table ledger ! 2, tx_table ledger ! 1, tx_table ledger ! 0],
          pg_total = 3, pg_page = 1, pg_per_page = 20\<rparr>
   \<and> \<not> tx_matches ledger '' '' (tx_table ledger ! 2)"
  by code_simp

theorem listing_filter_witness:
  "db_keys_ok ledger \<and> texts_nul_free ledger
   \<and> strip '' GROCER '' = ''GROCER'' \<and> plain_term ''GROCER''
   \<and> listing_query ledger 1 '' GROCER '' = [tx_table ledger ! 1]
   \<and> map t_id (listing_query ledger 1 ''GROCER'') = [2]
   \<and> t_description (tx_table ledger ! 1) = Some ''Groceries run''
   \<and> strip ''grocer'' = ''grocer'' \<and> plain_term ''grocer''
   \<and> listing_query ledger 1 ''grocer'' = [tx_table ledger ! 1]
   \<and> strip ''zzz-no-match'' = ''zzz-no-match'' \<and> plain_term ''zzz-no-match''
   \<and> filter (tx_matches ledger ''zzz-no-match'') (user_transactions ledger 1) = []
   \<and> transactions ledger 1 1 ''zzz-no-match''
       = Inr \<lparr>pg_items = [], pg_total = 0, pg_page = 1, pg_per_page = 20\<rparr>"
proof -
  have s1: "strip '' GROCER '' = ''GROCER''" by code_simp
  have w1: "plain_term ''GROCER''" by (simp add: plain_term_def)
  have m1: "order_by_date_desc (filter (tx_matches ledger ''GROCER'') (user_transactions ledger 1))
            = [tx_table ledger ! 1]"
    by code_simp
  have h1: "db_keys_ok ledger \<and> strip '' GROCER '' \<noteq> [] \<and> plain_term (strip '' GROCER '')
            \<and> texts_nul_free ledger"
    by (simp add: ledger_keys ledger_texts s1 w1)
  from listing_filter [of ledger "'' GROCER ''" 1 1] h1
  have "listing_query ledger 1 '' GROCER ''
        = order_by_date_desc (filter (tx_matches ledger (strip '' GROCER ''))
                                     (user_transactions ledger 1))"
    by blast
  then have c1: "listing_query ledger 1 '' GROCER '' = [tx_table ledger ! 1]"
    by (simp only: s1 m1)
  have d1: "t_description (tx_table ledger ! 1) = Some ''Groceries run''"
    by (simp add: ledger_def)
  have s3: "strip ''grocer'' = ''grocer''" by code_simp
  have w3: "plain_term ''grocer''" by (simp add: plain_term_def)
  have m3: "order_by_date_desc (filter (tx_matches ledger ''grocer'') (user_transactions ledger 1))
            = [tx_table ledger ! 1]"
    by code_simp
  have h3: "db_keys_ok ledger \<and> strip ''grocer'' \<noteq> [] \<and> plain_term (strip ''grocer'')
            \<and> texts_nul_free ledger"
    by (simp add: ledger_keys ledger_texts s3 w3)
  from listing_filter [of ledger "''grocer''" 1 1] h3
  have "listing_query ledger 1 ''grocer''
        = order_by_date_desc (filter (tx_matches ledger (strip ''grocer''))
                                     (user_transactions ledger 1))"
    by blast
  then have c3: "listing_query ledger 1 ''grocer'' = [tx_table ledger ! 1]"
    by (simp only: s3 m3)
  have s2: "strip ''zzz-no-match'' = ''zzz-no-match''" by code_simp
  have w2: "plain_term ''zzz-no-match''" by (simp add: plain_term_def)
  have m2: "filter (tx_matches ledger ''zzz-no-match'') (user_transactions ledger 1) = []"
    by code_simp
  have h2: "db_keys_ok ledger \<and> strip ''zzz-no-match'' \<noteq> []
            \<and> plain_term (strip ''zzz-no-match'') \<and> texts_nul_free ledger"
    by (simp add: ledger_keys ledger_texts s2 w2)
  have m2': "filter (tx_matches ledger (strip ''zzz-no-match'')) (user_transactions ledger 1) = []"
    by (simp only: s2 m2)
  from listing_filter [of ledger "''zzz-no-match''" 1 1] h2 m2'
  have c2: "transactions ledger 1 1 ''zzz-no-match''
       = Inr \<lparr>pg_items = [], pg_total = 0, pg_page = 1, pg_per_page = 20\<rparr>"
    by blast
  show ?thesis
    by (simp only: ledger_keys ledger_texts s1 w1 c1 ledger_upper_term d1 s3 w3 c3 s2 w2 m2 c2)
qed

section \<open>The CSV export\<close>

lemma digit_is_digit: "digit n \<in> set ''0123456789''"
proof -
  have "n mod 10 < length ''0123456789''" by simp
  then have "''0123456789'' ! (n mod 10) \<in> set ''0123456789''" by (rule nth_mem)
  then show ?thesis by (simp only: digit_def)
qed

lemma iso_shaped_isoformat: "iso_shaped (isoformat dt)"
  using digit_is_digit
  by (simp add: iso_shaped_def isoformat_def pad4_def pad2_def)

lemma export_csv_rows:
  "export_csv d uid = csv_header # map (csv_row d) (order_by_date_desc (user_transactions d uid))"
  by (simp add: export_csv_def csv_header_def)

lemma outer_join_fst: "(a, b) \<in> set (outer_join_category cs ts) \<Longrightarrow> a \<in> set ts"
proof -
  assume "(a, b) \<in> set (outer_join_category cs ts)"
  then obtain t where t: "t \<in> set ts"
    and r: "(a, b) \<in> set (case filter (\<lambda>c. t_category_id t = Some (c_id c)) cs of
                              [] \<Rightarrow> [(t, None)]
                            | m # ms \<Rightarrow> map (\<lambda>c. (t, Some c)) (m # ms))"
    by (auto simp: outer_join_category_def)
  from r have "a = t"
    by (cases "filter (\<lambda>c. t_category_id t = Some (c_id c)) cs") auto
  with t show ?thesis by simp
qed

lemma filtered_rows_subset: "x \<in> set (filtered_rows d uid q) \<Longrightarrow> x \<in> set (user_transactions d uid)"
  by (auto simp: filtered_rows_def Let_def dest: outer_join_fst split: if_splits)

text \<open>
  Claim C8, as the code has it. The export reads neither a page nor a filter string:
  it is the header row followed by one row for each of the caller's transactions, all
  of them, whatever filter the listing was given, latest date first. In a row the date
  is the ISO text of the shape \<open>YYYY-MM-DD\<close>, the type and the amount are as stored, the
  category is the name of the referenced category, or the empty string when there is
  none, and the description is the empty string when absent.
\<close>

theorem export_csv_all_rows:
  "hd (export_csv d uid) = csv_header
   \<and> tl (export_csv d uid) = map (csv_row d) (order_by_date_desc (user_transactions d uid))
   \<and> mset (order_by_date_desc (user_transactions d uid)) = mset (user_transactions d uid)
   \<and> date_descending (order_by_date_desc (user_transactions d uid))
   \<and> length (export_csv d uid) = 1 + length (user_transactions d uid)
   \<and> (\<forall>x \<in> set (filtered_rows d uid q). x \<in> set (user_transactions d uid))
   \<and> (\<forall>x \<in> set (user_transactions d uid). csv_row d x \<in> set (tl (export_csv d uid)))
   \<and> length (csv_row d t) = 5
   \<and> csv_row d t ! 0 = Str (isoformat (t_date t)) \<and> iso_shaped (isoformat (t_date t))
   \<and> csv_row d t ! 1 = Str (t_type t)
   \<and> csv_row d t ! 2 = Num (t_amount t)
   \<and> (tx_category d t = None \<longrightarrow> csv_row d t ! 3 = Str [])
   \<and> (\<forall>c. tx_category d t = Some c \<longrightarrow> csv_row d t ! 3 = Str (c_name c))
   \<and> (t_description t = None \<longrightarrow> csv_row d t ! 4 = Str [])
   \<and> (\<forall>s. t_description t = Some s \<longrightarrow> csv_row d t ! 4 = Str s)"
proof -
  let ?res = "order_by_date_desc (user_transactions d uid)"
  have a0: "hd (export_csv d uid) = csv_header"
    by (simp add: export_csv_rows)
  have a1: "tl (export_csv d uid) = map (csv_row d) ?res"
    by (simp add: export_csv_rows)
  have a2: "mset ?res = mset (user_transactions d uid)"
    using order_by_date_desc_allowed [of "user_transactions d uid"]
    by (simp add: date_desc_order_def)
  have a3: "date_descending ?res"
    by (rule date_descending_order_by)
  have a4: "length (export_csv d uid) = 1 + length (user_transactions d uid)"
    by (simp add: export_csv_rows length_order_by_date_desc)
  have a5: "\<forall>x \<in> set (filtered_rows d uid q). x \<in> set (user_transactions d uid)"
    by (simp add: filtered_rows_subset)
  have a6: "\<forall>x \<in> set (user_transactions d uid). csv_row d x \<in> set (tl (export_csv d uid))"
    by (simp add: a1 set_order_by_date_desc)
  have a7: "length (csv_row d t) = 5
   \<and> csv_row d t ! 0 = Str (isoformat (t_date t)) \<and> iso_shaped (isoformat (t_date t))
   \<and> csv_row d t ! 1 = Str (t_type t)
   \<and> csv_row d t ! 2 = Num (t_amount t)
   \<and> (tx_category d t = None \<longrightarrow> csv_row d t ! 3 = Str [])
   \<and> (\<forall>c. tx_category d t = Some c \<longrightarrow> csv_row d t ! 3 = Str (c_name c))
   \<and> (t_description t = None \<longrightarrow> csv_row d t ! 4 = Str [])
   \<and> (\<forall>s. t_description t = Some s \<longrightarrow> csv_row d t ! 4 = Str s)"
    by (simp add: csv_row_def iso_shaped_isoformat)
  show ?thesis
    by (intro conjI a0 a1 a2 a3 a4 a5 a6 a7 [THEN conjunct1]
        a7 [THEN conjunct2, THEN conjunct1] a7 [THEN conjunct2, THEN conjunct2, THEN conjunct1]
        a7 [THEN conjunct2, THEN conjunct2, THEN conjunct2])
qed

lemma ledger_export:
  "export_csv ledger 1 =
       [csv_header,
        [Str ''2024-03-01'', Str ''income'', Num 50, Str [], Str []],
        [Str ''2024-01-20'', Str ''expense'', Num 30, Str ''Food'', Str ''Groceries run''],
        [Str ''2024-01-05'', Str ''income'', Num 100, Str ''Salary'', Str ''Salary January'']]"
  by (simp add: export_csv_rows user_transactions_def ledger_def order_by_date_desc_def
      sort_desc_def date_key_def csv_row_def tx_category_def isoformat_def pad4_def pad2_def
      digit_def)

text \<open>
  Claim C8 as stated fails: for user 1 of \<open>ledger\<close> the listing filtered by \<open>Grocer\<close> holds
  one transaction, and the export holds the rows of all three, so it is not the filtered
  set.
\<close>

theorem export_not_filtered:
  "listing_query ledger 1 ''Grocer'' = [tx_table ledger ! 1]
   \<and> length (tl (export_csv ledger 1)) = 3
   \<and> tl (export_csv ledger 1) \<noteq> map (csv_row ledger) (listing_query ledger 1 ''Grocer'')"
proof -
  have a: "listing_query ledger 1 ''Grocer'' = [tx_table ledger ! 1]" by code_simp
  have b: "length (tl (export_csv ledger 1)) = 3" by (simp add: ledger_export)
  have "length (map (csv_row ledger) (listing_query ledger 1 ''Grocer'')) = 1"
    by (simp add: a)
  with b have "length (tl (export_csv ledger 1))
               \<noteq> length (map (csv_row ledger) (listing_query ledger 1 ''Grocer''))"
    by simp
  then have c: "tl (export_csv ledger 1)
                \<noteq> map (csv_row ledger) (listing_query ledger 1 ''Grocer'')"
    by (rule contrapos_nn) (simp only:)
  show ?thesis by (intro conjI a b c)
qed

theorem export_csv_all_rows_witness:
  "length (user_transactions busy_ledger 1) = 45
   \<and> length (export_csv busy_ledger 1) = 46
   \<and> tx_category ledger (tx_table ledger ! 2) = None
   \<and> t_description (tx_table ledger ! 2) = None
   \<and> csv_row ledger (tx_table ledger ! 2)
       = [Str ''2024-03-01'', Str ''income'', Num 50, Str [], Str []]
   \<and> iso_shaped ''2024-03-01''
   \<and> tx_table ledger ! 0 \<in> set (user_transactions ledger 1)
   \<and> csv_row ledger (tx_table ledger ! 0) \<in> set (tl (export_csv ledger 1))
   \<and> export_csv ledger 1 =
       [csv_header,
        [Str ''2024-03-01'', Str ''income'', Num 50, Str [], Str []],
        [Str ''2024-01-20'', Str ''expense'', Num 30, Str ''Food'', Str ''Groceries run''],
        [Str ''2024-01-05'', Str ''income'', Num 100, Str ''Salary'', Str ''Salary January'']]"
proof -
  have n: "length (user_transactions busy_ledger 1) = 45"
    by (simp add: user_transactions_def busy_ledger_def filter_map o_def)
  have c: "tx_category ledger (tx_table ledger ! 2) = None"
    "t_description (tx_table ledger ! 2) = None"
    by (simp_all add: tx_category_def ledger_def)
  have iso: "isoformat (t_date (tx_table ledger ! 2)) = ''2024-03-01''"
    by (simp add: ledger_def isoformat_def pad4_def pad2_def digit_def)
  have m: "tx_table ledger ! 0 \<in> set (user_transactions ledger 1)"
    by (simp add: user_transactions_def ledger_def)
  note T = export_csv_all_rows [of busy_ledger 1 "[]" "tx_table ledger ! 2"]
  note U = export_csv_all_rows [of ledger 1 "[]" "tx_table ledger ! 2"]
  from T n have l: "length (export_csv busy_ledger 1) = 46" by simp
  from U have "iso_shaped (isoformat (t_date (tx_table ledger ! 2)))" by blast
  then have s: "iso_shaped ''2024-03-01''" by (simp only: iso)
  have r: "csv_row ledger (tx_table ledger ! 2)
       = [Str ''2024-03-01'', Str ''income'', Num 50, Str [], Str []]"
    by (simp add: csv_row_def c iso) (simp add: ledger_def)
  from U m have x: "csv_row ledger (tx_table ledger ! 0) \<in> set (tl (export_csv ledger 1))"
    by blast
  show ?thesis
    by (intro conjI n l c r s m x ledger_export)
qed

section \<open>Category references stay with their owner\<close>

lemma fold_max_ge: "(x::int) \<in> set (i # rest) \<Longrightarrow> x \<le> fold max rest i"
proof -
  assume "x \<in> set (i # rest)"
  then have "x \<le> Max (set (i # rest))" by (intro Max_ge) simp_all
  then show ?thesis by (simp only: Max.set_eq_fold)
qed

lemma next_id_fresh: "next_id ids \<notin> set ids"
proof (cases ids)
  case Nil
  then show ?thesis by simp
next
  case (Cons i rest)
  show ?thesis
  proof
    assume "next_id ids \<in> set ids"
    with Cons have "next_id ids \<le> fold max rest i" using fold_max_ge by blast
    with Cons show False by (simp add: next_id_def)
  qed
qed

lemma category_refs_owned_iff:
  "category_refs_owned d \<longleftrightarrow>
     (\<forall>t \<in> set (tx_table d). \<forall>k. t_category_id t = Some k \<longrightarrow>
        (\<exists>c \<in> set (cat_table d). c_id c = k \<and> c_user_id c = t_user_id t))"
  by (auto simp: category_refs_owned_def list_all_iff list_ex_iff split: option.splits)

lemma same_key_same_row:
  "distinct (map f xs) \<Longrightarrow> x \<in> set xs \<Longrightarrow> y \<in> set xs \<Longrightarrow> f x = f y \<Longrightarrow> x = y"
  by (meson distinct_map inj_onD)

lemma inv_add_transaction:
  assumes "db_inv d"
  shows "db_inv (snd (add_transaction d uid req))"
proof (cases req)
  case GET
  with assms show ?thesis by (simp add: add_transaction_def)
next
  case (POST f)
  show ?thesis
  proof (cases "validate_transaction_form (map c_id (user_categories d uid)) f")
    case (Inl errs)
    with POST assms show ?thesis by (simp add: add_transaction_def)
  next
    case (Inr v)
    let ?t = "\<lparr>t_id = next_id (map t_id (tx_table d)), t_amount = td_amount v,
               t_type = td_type v, t_description = td_description v, t_date = td_date v,
               t_category_id = category_or_none (td_category v), t_user_id = uid\<rparr>"
    from POST Inr have d': "snd (add_transaction d uid req) = d\<lparr>tx_table := tx_table d @ [?t]\<rparr>"
      by (simp add: add_transaction_def Let_def)
    from validate_Inr [OF Inr] have "td_category v \<in> set (map c_id (user_categories d uid))"
      by simp
    then obtain c where c: "c \<in> set (cat_table d)" "c_user_id c = uid" "c_id c = td_category v"
      by (auto simp: user_categories_def)
    have keys: "db_keys_ok (d\<lparr>tx_table := tx_table d @ [?t]\<rparr>)"
      using assms next_id_fresh [of "map t_id (tx_table d)"]
      by (simp add: db_inv_def db_keys_ok_def)
    have refs: "category_refs_owned (d\<lparr>tx_table := tx_table d @ [?t]\<rparr>)"
      unfolding category_refs_owned_iff
    proof (intro ballI allI impI)
      fix t k
      assume t: "t \<in> set (tx_table (d\<lparr>tx_table := tx_table d @ [?t]\<rparr>))"
        and k: "t_category_id t = Some k"
      from t have "t \<in> set (tx_table d) \<or> t = ?t" by auto
      then show "\<exists>c \<in> set (cat_table (d\<lparr>tx_table := tx_table d @ [?t]\<rparr>)).
                   c_id c = k \<and> c_user_id c = t_user_id t"
      proof
        assume "t \<in> set (tx_table d)"
        with assms k show ?thesis by (auto simp: db_inv_def category_refs_owned_iff)
      next
        assume "t = ?t"
        with k have "k = td_category v" by (simp add: category_or_none_def split: if_splits)
        with c \<open>t = ?t\<close> show ?thesis by auto
      qed
    qed
    from keys refs d' show ?thesis by (simp add: db_inv_def)
  qed
qed

lemma inv_edit_transaction:
  assumes "db_inv d"
  shows "db_inv (snd (edit_transaction d uid i req))"
proof (cases "find (\<lambda>t. t_id t = i \<and> t_user_id t = uid) (tx_table d)")
  case None
  with assms show ?thesis by (simp add: edit_transaction_def)
next
  case (Some t0)
  then have t0: "t0 \<in> set (tx_table d)" "t_id t0 = i" "t_user_id t0 = uid"
    by (auto simp: find_Some_iff)
  show ?thesis
  proof (cases req)
    case GET
    with Some assms show ?thesis by (simp add: edit_transaction_def)
  next
    case (POST f)
    show ?thesis
    proof (cases "validate_transaction_form (map c_id (user_categories d uid)) f")
      case (Inl errs)
      with POST Some assms show ?thesis by (simp add: edit_transaction_def)
    next
      case (Inr v)
      let ?upd = "\<lambda>x. if t_id x = t_id t0
                       then x\<lparr>t_amount := td_amount v, t_type := td_type v,
                              t_description := td_description v, t_date := td_date v,
                              t_category_id := category_or_none (td_category v)\<rparr>
                       else x"
      from POST Some Inr
      have d': "snd (edit_transaction d uid i req) = d\<lparr>tx_table := map ?upd (tx_table d)\<rparr>"
        by (simp add: edit_transaction_def Let_def)
      from validate_Inr [OF Inr] have "td_category v \<in> set (map c_id (user_categories d uid))"
        by simp
      then obtain c where c: "c \<in> set (cat_table d)" "c_user_id c = uid" "c_id c = td_category v"
        by (auto simp: user_categories_def)
      have "map t_id (map ?upd xs) = map t_id xs" for xs
        by (induction xs) simp_all
      then have ids: "map t_id (map ?upd (tx_table d)) = map t_id (tx_table d)" .
      from assms have dist: "distinct (map t_id (tx_table d))"
        by (simp add: db_inv_def db_keys_ok_def)
      have keys: "db_keys_ok (d\<lparr>tx_table := map ?upd (tx_table d)\<rparr>)"
        using assms ids by (simp add: db_inv_def db_keys_ok_def del: map_map)
      have refs: "category_refs_owned (d\<lparr>tx_table := map ?upd (tx_table d)\<rparr>)"
        unfolding category_refs_owned_iff
      proof (intro ballI allI impI)
        fix t k
        assume t: "t \<in> set (tx_table (d\<lparr>tx_table := map ?upd (tx_table d)\<rparr>))"
          and k: "t_category_id t = Some k"
        from t obtain x where x: "x \<in> set (tx_table d)" "t = ?upd x" by auto
        show "\<exists>c \<in> set (cat_table (d\<lparr>tx_table := map ?upd (tx_table d)\<rparr>)).
                   c_id c = k \<and> c_user_id c = t_user_id t"
        proof (cases "t_id x = t_id t0")
          case True
          from same_key_same_row [OF dist x(1) t0(1) True] have "x = t0" .
          with True x t0 have u: "t_user_id t = uid" by simp
          from True x k have "k = td_category v"
            by (simp add: category_or_none_def split: if_splits)
          with c u show ?thesis by auto
        next
          case False
          with x have "t = x" by simp
          with x(1) assms k show ?thesis by (auto simp: db_inv_def category_refs_owned_iff)
        qed
      qed
      from keys refs d' show ?thesis by (simp add: db_inv_def)
    qed
  qed
qed

lemma inv_delete_transaction:
  assumes "db_inv d"
  shows "db_inv (snd (delete_transaction d uid i))"
proof (cases "find (\<lambda>t. t_id t = i \<and> t_user_id t = uid) (tx_table d)")
  case None
  with assms show ?thesis by (simp add: delete_transaction_def)
next
  case (Some t0)
  then have d': "snd (delete_transaction d uid i)
                 = d\<lparr>tx_table := filter (\<lambda>x. t_id x \<noteq> t_id t0) (tx_table d)\<rparr>"
    by (simp add: delete_transaction_def)
  from assms have "db_keys_ok (d\<lparr>tx_table := filter (\<lambda>x. t_id x \<noteq> t_id t0) (tx_table d)\<rparr>)"
    by (simp add: db_inv_def db_keys_ok_def distinct_map_filter)
  moreover from assms
  have "category_refs_owned (d\<lparr>tx_table := filter (\<lambda>x. t_id x \<noteq> t_id t0) (tx_table d)\<rparr>)"
    by (auto simp: db_inv_def category_refs_owned_iff)
  ultimately show ?thesis using d' by (simp add: db_inv_def)
qed

lemma inv_add_category:
  assumes "db_inv d"
  shows "db_inv (snd (add_category d uid creq))"
proof (cases creq)
  case GET
  with assms show ?thesis by (simp add: add_category_def)
next
  case (POST f)
  show ?thesis
  proof (cases "validate_category_form f")
    case (Inl errs)
    with POST assms show ?thesis by (simp add: add_category_def)
  next
    case (Inr n)
    let ?c = "\<lparr>c_id = next_id (map c_id (cat_table d)), c_name = n, c_user_id = uid\<rparr>"
    from POST Inr have d': "snd (add_category d uid creq) = d\<lparr>cat_table := cat_table d @ [?c]\<rparr>"
      by (simp add: add_category_def Let_def)
    have "db_keys_ok (d\<lparr>cat_table := cat_table d @ [?c]\<rparr>)"
      using assms next_id_fresh [of "map c_id (cat_table d)"]
      by (simp add: db_inv_def db_keys_ok_def)
    moreover from assms have "category_refs_owned (d\<lparr>cat_table := cat_table d @ [?c]\<rparr>)"
      by (auto simp: db_inv_def category_refs_owned_iff)
    ultimately show ?thesis using d' by (simp add: db_inv_def)
  qed
qed

lemma inv_edit_category:
  assumes "db_inv d"
  shows "db_inv (snd (edit_category d uid j creq))"
proof (cases "find (\<lambda>c. c_id c = j \<and> c_user_id c = uid) (cat_table d)")
  case None
  with assms show ?thesis by (simp add: edit_category_def)
next
  case (Some c0)
  show ?thesis
  proof (cases creq)
    case GET
    with Some assms show ?thesis by (simp add: edit_category_def)
  next
    case (POST f)
    show ?thesis
    proof (cases "validate_category_form f")
      case (Inl errs)
      with POST Some assms show ?thesis by (simp add: edit_category_def)
    next
      case (Inr n)
      let ?upd = "\<lambda>x. if c_id x = c_id c0 then x\<lparr>c_name := n\<rparr> else x"
      from POST Some Inr
      have d': "snd (edit_category d uid j creq) = d\<lparr>cat_table := map ?upd (cat_table d)\<rparr>"
        by (simp add: edit_category_def)
      have "map c_id (map ?upd xs) = map c_id xs" for xs
        by (induction xs) simp_all
      then have ids: "map c_id (map ?upd (cat_table d)) = map c_id (cat_table d)" .
      have keys: "db_keys_ok (d\<lparr>cat_table := map ?upd (cat_table d)\<rparr>)"
        using assms ids by (simp add: db_inv_def db_keys_ok_def del: map_map)
      have refs: "category_refs_owned (d\<lparr>cat_table := map ?upd (cat_table d)\<rparr>)"
        unfolding category_refs_owned_iff
      proof (intro ballI allI impI)
        fix t k
        assume "t \<in> set (tx_table (d\<lparr>cat_table := map ?upd (cat_table d)\<rparr>))"
          and "t_category_id t = Some k"
        with assms obtain c where c: "c \<in> set (cat_table d)" "c_id c = k" "c_user_id c = t_user_id t"
          by (auto simp: db_inv_def category_refs_owned_iff)
        from c(1) have "?upd c \<in> ?upd ` set (cat_table d)" by (rule imageI)
        then have m: "?upd c \<in> set (cat_table (d\<lparr>cat_table := map ?upd (cat_table d)\<rparr>))"
          by simp
        from c have p: "c_id (?upd c) = k \<and> c_user_id (?upd c) = t_user_id t" by simp
        from p m show "\<exists>c \<in> set (cat_table (d\<lparr>cat_table := map ?upd (cat_table d)\<rparr>)).
                   c_id c = k \<and> c_user_id c = t_user_id t"
          by (rule bexI)
      qed
      from keys refs d' show ?thesis by (simp add: db_inv_def)
    qed
  qed
qed

lemma inv_delete_category:
  assumes "db_inv d"
  shows "db_inv (snd (delete_category d uid j))"
proof (cases "owns_category d uid j")
  case False
  with assms show ?thesis by (simp add: delete_category_def find_not_owned_cat)
next
  case True
  let ?d' = "d\<lparr>tx_table := map (clear_category j) (tx_table d),
               cat_table := filter (\<lambda>x. c_id x \<noteq> j) (cat_table d)\<rparr>"
  from delete_category_owned [OF True] have d': "snd (delete_category d uid j) = ?d'" by simp
  have "map t_id (map (clear_category j) xs) = map t_id xs" for xs
    by (induction xs) (simp_all add: clear_category_def)
  then have ids: "map t_id (map (clear_category j) (tx_table d)) = map t_id (tx_table d)" .
  have keys: "db_keys_ok ?d'"
    using assms ids by (simp add: db_inv_def db_keys_ok_def distinct_map_filter del: map_map)
  have refs: "category_refs_owned ?d'"
    unfolding category_refs_owned_iff
  proof (intro ballI allI impI)
    fix t k
    assume t: "t \<in> set (tx_table ?d')" and k: "t_category_id t = Some k"
    from t obtain x where x: "x \<in> set (tx_table d)" "t = clear_category j x" by auto
    with k have "k \<noteq> j" "t = x" by (auto simp: clear_category_def split: if_splits)
    with x k assms obtain c where "c \<in> set (cat_table d)" "c_id c = k" "c_user_id c = t_user_id t"
      by (auto simp: db_inv_def category_refs_owned_iff)
    with \<open>k \<noteq> j\<close> show "\<exists>c \<in> set (cat_table ?d'). c_id c = k \<and> c_user_id c = t_user_id t"
      by auto
  qed
  from keys refs d' show ?thesis by (simp add: db_inv_def)
qed

lemma inv_category_owner:
  assumes "db_inv d" "t \<in> set (tx_table d)" "tx_category d t = Some c"
  shows "c_user_id c = t_user_id t"
proof -
  from assms(3) obtain k where k: "t_category_id t = Some k"
    and f: "find (\<lambda>c. c_id c = k) (cat_table d) = Some c"
    by (auto simp: tx_category_def split: option.splits)
  from f have c: "c \<in> set (cat_table d)" "c_id c = k" by (auto simp: find_Some_iff)
  from assms(1,2) k obtain c' where c': "c' \<in> set (cat_table d)" "c_id c' = k"
    "c_user_id c' = t_user_id t"
    by (auto simp: db_inv_def category_refs_owned_iff)
  from assms(1) have "distinct (map c_id (cat_table d))" by (simp add: db_inv_def db_keys_ok_def)
  then have dc: "distinct (map c_id (cat_table d))" .
  from c c' have "c_id c = c_id c'" by simp
  from same_key_same_row [OF dc c(1) c'(1) this] have "c = c'" .
  with c' show ?thesis by simp
qed

lemma validate_foreign_category:
  assumes "tf_category f = None \<or> (\<exists>k. tf_category f = Some k \<and> \<not> owns_category d uid k)"
  shows "validate_transaction_form (map c_id (user_categories d uid)) f
           = Inl (transaction_form_errors (map c_id (user_categories d uid)) f)
         \<and> ''category'' \<in> set (transaction_form_errors (map c_id (user_categories d uid)) f)"
proof -
  have "category_field (map c_id (user_categories d uid)) (tf_category f) = [''category'']"
    using assms
    by (auto simp: category_field_def owns_category_def user_categories_def list_ex_iff)
  then have e: "''category'' \<in> set (transaction_form_errors (map c_id (user_categories d uid)) f)"
    by (simp add: transaction_form_errors_def)
  then have "transaction_form_errors (map c_id (user_categories d uid)) f \<noteq> []" by auto
  then have "validate_transaction_form (map c_id (user_categories d uid)) f
           = Inl (transaction_form_errors (map c_id (user_categories d uid)) f)"
    by (simp add: validate_transaction_form_def split: option.splits)
  with e show ?thesis by simp
qed

lemma inv_empty: "db_inv \<lparr>tx_table = [], cat_table = []\<rparr>"
  by (simp add: db_inv_def db_keys_ok_def category_refs_owned_def)

text \<open>
  Claim C10. Let primary keys be unique and every category reference that is present
  point to a category of the transaction's own user; the empty database is so. Then
  the same holds after each of the views that write: adding, editing and deleting a
  transaction, and adding, editing and deleting a category; and the category that a
  transaction reads is owned by the transaction's user. The forms offer the caller's
  categories only: a submitted category that is missing or is not the id of a category
  of the caller fails validation, on create and on edit, with an error on \<open>category\<close> and
  no change of the database.
\<close>

theorem category_refs_stay_owned:
  "(db_inv d \<longrightarrow>
      db_inv (snd (add_transaction d uid req))
      \<and> db_inv (snd (edit_transaction d uid i req))
      \<and> db_inv (snd (delete_transaction d uid i))
      \<and> db_inv (snd (add_category d uid creq))
      \<and> db_inv (snd (edit_category d uid j creq))
      \<and> db_inv (snd (delete_category d uid j))
      \<and> (\<forall>t \<in> set (tx_table d). \<forall>c. tx_category d t = Some c \<longrightarrow> c_user_id c = t_user_id t))
   \<and> db_inv \<lparr>tx_table = [], cat_table = []\<rparr>
   \<and> (tf_category f = None \<or> (\<exists>k. tf_category f = Some k \<and> \<not> owns_category d uid k) \<longrightarrow>
        (\<exists>errs. add_transaction d uid (POST f) = (Render ''add_transaction.html'' errs, d)
                \<and> ''category'' \<in> set errs)
        \<and> (owns_transaction d uid i \<longrightarrow>
             (\<exists>errs. edit_transaction d uid i (POST f)
                       = (Inr (Render ''edit_transaction.html'' errs), d)
                     \<and> ''category'' \<in> set errs)))"
proof (intro conjI impI)
  assume "db_inv d"
  then show "db_inv (snd (add_transaction d uid req))" by (rule inv_add_transaction)
next
  assume "db_inv d"
  then show "db_inv (snd (edit_transaction d uid i req))" by (rule inv_edit_transaction)
next
  assume "db_inv d"
  then show "db_inv (snd (delete_transaction d uid i))" by (rule inv_delete_transaction)
next
  assume "db_inv d"
  then show "db_inv (snd (add_category d uid creq))" by (rule inv_add_category)
next
  assume "db_inv d"
  then show "db_inv (snd (edit_category d uid j creq))" by (rule inv_edit_category)
next
  assume "db_inv d"
  then show "db_inv (snd (delete_category d uid j))" by (rule inv_delete_category)
next
  assume "db_inv d"
  then show "\<forall>t \<in> set (tx_table d). \<forall>c. tx_category d t = Some c \<longrightarrow> c_user_id c = t_user_id t"
    using inv_category_owner by blast
next
  show "db_inv \<lparr>tx_table = [], cat_table = []\<rparr>" by (rule inv_empty)
next
  assume a: "tf_category f = None \<or> (\<exists>k. tf_category f = Some k \<and> \<not> owns_category d uid k)"
  note v = validate_foreign_category [OF a]
  from v show "\<exists>errs. add_transaction d uid (POST f) = (Render ''add_transaction.html'' errs, d)
                \<and> ''category'' \<in> set errs"
    by (simp add: add_transaction_def)
next
  assume a: "tf_category f = None \<or> (\<exists>k. tf_category f = Some k \<and> \<not> owns_category d uid k)"
    and o: "owns_transaction d uid i"
  note v = validate_foreign_category [OF a]
  from find_owned_tx [OF o] obtain t where
    "find (\<lambda>t. t_id t = i \<and> t_user_id t = uid) (tx_table d) = Some t" by blast
  with v show "\<exists>errs. edit_transaction d uid i (POST f)
                       = (Inr (Render ''edit_transaction.html'' errs), d)
                     \<and> ''category'' \<in> set errs"
    by (simp add: edit_transaction_def)
qed

text \<open>A form of user 1 of \<open>ledger\<close> that names category 3, which user 2 owns.\<close>

lemma ledger_inv: "db_inv ledger"
  by (simp add: db_inv_def db_keys_ok_def category_refs_owned_def ledger_def)

theorem category_refs_stay_owned_witness:
  "db_inv ledger
   \<and> tf_category (form_with_amount (Some 12)\<lparr>tf_category := Some 3\<rparr>) = Some 3
   \<and> owns_category ledger 2 3 \<and> \<not> owns_category ledger 1 3
   \<and> owns_transaction ledger 1 2
   \<and> add_transaction ledger 1 (POST (form_with_amount (Some 12)\<lparr>tf_category := Some 3\<rparr>))
       = (Render ''add_transaction.html'' [''category''], ledger)
   \<and> edit_transaction ledger 1 2 (POST (form_with_amount (Some 12)\<lparr>tf_category := Some 3\<rparr>))
       = (Inr (Render ''edit_transaction.html'' [''category'']), ledger)
   \<and> db_inv (snd (add_transaction ledger 1 (POST (form_with_amount (Some 12)))))
   \<and> t_category_id (last (tx_table (snd (add_transaction ledger 1
                                           (POST (form_with_amount (Some 12))))))) = Some 1
   \<and> db_inv (snd (delete_category ledger 1 2))
   \<and> tx_category ledger (tx_table ledger ! 0) = Some (cat_table ledger ! 1)
   \<and> c_user_id (cat_table ledger ! 1) = t_user_id (tx_table ledger ! 0)"
proof -
  let ?f = "form_with_amount (Some 12)\<lparr>tf_category := Some 3\<rparr>"
  let ?g = "form_with_amount (Some 12)"
  have c: "tf_category ?f = Some 3" by (simp add: form_with_amount_def)
  have o: "owns_category ledger 2 3" "\<not> owns_category ledger 1 3"
    by (simp_all add: owns_category_def ledger_def)
  have ot: "owns_transaction ledger 1 2" by (simp add: owns_transaction_def ledger_def)
  note T = category_refs_stay_owned [of ledger 1 "POST ?g" 2 "POST \<lparr>cf_csrf_ok = True, cf_name = Some ''Rent''\<rparr>" 2 ?f]
  from c o have h: "tf_category ?f = None
                    \<or> (\<exists>k. tf_category ?f = Some k \<and> \<not> owns_category ledger 1 k)"
    by blast
  from T h obtain e1 where
    a1: "add_transaction ledger 1 (POST ?f) = (Render ''add_transaction.html'' e1, ledger)"
    by blast
  have e1: "transaction_form_errors (map c_id (user_categories ledger 1)) ?f = [''category'']"
    by (simp add: form_with_amount_def ledger_def user_categories_def
        transaction_form_errors_def amount_field_def type_field_def category_field_def
        date_field_def csrf_field_def)
  from validate_foreign_category [OF h]
  have v: "validate_transaction_form (map c_id (user_categories ledger 1)) ?f = Inl [''category'']"
    by (simp add: e1)
  from a1 v have r1: "add_transaction ledger 1 (POST ?f)
       = (Render ''add_transaction.html'' [''category''], ledger)"
    by (simp add: add_transaction_def)
  from T h ot obtain e2 where
    a2: "edit_transaction ledger 1 2 (POST ?f) = (Inr (Render ''edit_transaction.html'' e2), ledger)"
    by blast
  from find_owned_tx [OF ot] obtain t where
    ft: "find (\<lambda>t. t_id t = 2 \<and> t_user_id t = 1) (tx_table ledger) = Some t" by blast
  from a2 v ft have r2: "edit_transaction ledger 1 2 (POST ?f)
       = (Inr (Render ''edit_transaction.html'' [''category'']), ledger)"
    by (simp add: edit_transaction_def)
  from T ledger_inv have i1: "db_inv (snd (add_transaction ledger 1 (POST ?g)))"
    and i2: "db_inv (snd (delete_category ledger 1 2))"
    by blast+
  have m: "tx_table ledger ! 0 \<in> set (tx_table ledger)" by (simp add: ledger_def)
  have tc: "tx_category ledger (tx_table ledger ! 0) = Some (cat_table ledger ! 1)"
    by (simp add: tx_category_def ledger_def)
  from T ledger_inv m tc
  have u: "c_user_id (cat_table ledger ! 1) = t_user_id (tx_table ledger ! 0)"
    by blast
  have l: "t_category_id (last (tx_table (snd (add_transaction ledger 1 (POST ?g))))) = Some 1"
    by (simp add: add_transaction_def Let_def form_with_amount_def ledger_def
        user_categories_def validate_transaction_form_def transaction_form_errors_def
        amount_field_def type_field_def category_field_def date_field_def csrf_field_def
        category_or_none_def)
  show ?thesis
    by (intro conjI ledger_inv c o ot r1 r2 i1 l i2 tc u)
qed

end
